theory Spec2Isabelle
  imports Main "HOL-Library.Sublist" "HOL-Library.AList"
begin

section \<open>The file system that prepare\_mole.py works on\<close>

text \<open>
  The script touches nothing but the file system, the network and the cmake
  subprocess.  A path is its list of components from the root; a node is a
  regular file with its bytes or a directory with its entries in listing order.
  Symbolic links, permissions and relative paths are not part of the model.
\<close>

type_synonym path = "string list"

datatype node = File string | Dir "(string \<times> node) list"

fun lookup :: "node \<Rightarrow> path \<Rightarrow> node option" where
  "lookup n [] = Some n"
| "lookup (File x) (c # cs) = None"
| "lookup (Dir es) (c # cs) =
     (case map_of es c of None \<Rightarrow> None | Some ch \<Rightarrow> lookup ch cs)"

definition path_exists :: "node \<Rightarrow> path \<Rightarrow> bool" where
  \<comment> \<open>\<open>os.path.exists\<close>, \<open>Path.exists\<close>\<close>
  "path_exists root p = (lookup root p \<noteq> None)"

definition isdir :: "node \<Rightarrow> path \<Rightarrow> bool" where
  \<comment> \<open>\<open>os.path.isdir\<close>\<close>
  "isdir root p = (case lookup root p of Some (Dir es) \<Rightarrow> True | _ \<Rightarrow> False)"

text \<open>
  \<open>put p n root\<close> binds the name \<open>p\<close> to the node \<open>n\<close> when the parent of \<open>p\<close> is
  a directory (a new name goes to the end of the listing) and changes nothing
  otherwise; \<open>remove p root\<close> drops the name \<open>p\<close> with everything below it.
\<close>

fun put :: "path \<Rightarrow> node \<Rightarrow> node \<Rightarrow> node" where
  "put [] n root = n"
| "put (c # cs) n (File x) = File x"
| "put (c # cs) n (Dir es) =
     (if cs = [] then Dir (AList.update c n es)
      else case map_of es c of
             None \<Rightarrow> Dir es
           | Some ch \<Rightarrow> Dir (AList.update c (put cs n ch) es))"

fun remove :: "path \<Rightarrow> node \<Rightarrow> node" where
  "remove [] root = root"
| "remove (c # cs) (File x) = File x"
| "remove (c # cs) (Dir es) =
     (if cs = [] then Dir (AList.delete c es)
      else case map_of es c of
             None \<Rightarrow> Dir es
           | Some ch \<Rightarrow> Dir (AList.update c (remove cs ch) es))"

text \<open>
  \<open>mkdirs p root\<close> creates every missing directory along \<open>p\<close>; it gives \<open>None\<close>
  when a regular file is in the way.
\<close>

fun mkdirs :: "path \<Rightarrow> node \<Rightarrow> node option" where
  "mkdirs p (File x) = None"
| "mkdirs [] (Dir es) = Some (Dir es)"
| "mkdirs (c # cs) (Dir es) =
     (case mkdirs cs (case map_of es c of None \<Rightarrow> Dir [] | Some ch \<Rightarrow> ch) of
        None \<Rightarrow> None
      | Some ch' \<Rightarrow> Some (Dir (AList.update c ch' es)))"

section \<open>Exceptions\<close>

text \<open>
  The exceptions of the library calls the script makes.  A path carried by an
  error is the argument of the call that failed.
\<close>

datatype error =
    FileNotFoundError path
  | FileExistsError path
  | NotADirectoryError path
  | IsADirectoryError path
  | URLError string
  | ContentTooShortError string
  | ReadError path
  | BadZipFile path
  | CalledProcessError int "string list"
  | ShutilError path

section \<open>Library calls on the file system\<close>

definition mkdir :: "bool \<Rightarrow> path \<Rightarrow> node \<Rightarrow> error + node" where
  \<comment> \<open>\<open>Path.mkdir(exist_ok=...)\<close>, \<open>parents=False\<close>\<close>
  "mkdir exist_ok p root =
     (case lookup root p of
        Some (Dir es) \<Rightarrow> if exist_ok then Inr root else Inl (FileExistsError p)
      | Some (File x) \<Rightarrow> Inl (FileExistsError p)
      | None \<Rightarrow>
          (case lookup root (butlast p) of
             Some (Dir es) \<Rightarrow> Inr (put p (Dir []) root)
           | Some (File x) \<Rightarrow> Inl (NotADirectoryError p)
           | None \<Rightarrow> Inl (FileNotFoundError p)))"

definition makedirs :: "bool \<Rightarrow> path \<Rightarrow> node \<Rightarrow> error + node" where
  \<comment> \<open>\<open>os.makedirs(p, exist_ok=...)\<close>\<close>
  "makedirs exist_ok p root =
     (if path_exists root p then
        (if exist_ok \<and> isdir root p then Inr root else Inl (FileExistsError p))
      else case mkdirs p root of
             None \<Rightarrow> Inl (NotADirectoryError p)
           | Some root' \<Rightarrow> Inr root')"

definition write_file :: "path \<Rightarrow> string \<Rightarrow> node \<Rightarrow> error + node" where
  \<comment> \<open>\<open>open(p, 'wb')\<close> and writing the bytes\<close>
  "write_file p c root =
     (case lookup root p of
        Some (Dir es) \<Rightarrow> Inl (IsADirectoryError p)
      | Some (File x) \<Rightarrow> Inr (put p (File c) root)
      | None \<Rightarrow>
          (case lookup root (butlast p) of
             Some (Dir es) \<Rightarrow> Inr (put p (File c) root)
           | Some (File x) \<Rightarrow> Inl (NotADirectoryError p)
           | None \<Rightarrow> Inl (FileNotFoundError p)))"

definition unlink :: "path \<Rightarrow> node \<Rightarrow> error + node" where
  \<comment> \<open>\<open>Path.unlink()\<close>\<close>
  "unlink p root =
     (case lookup root p of
        None \<Rightarrow> Inl (FileNotFoundError p)
      | Some (Dir es) \<Rightarrow> Inl (IsADirectoryError p)
      | Some (File x) \<Rightarrow> Inr (remove p root))"

definition rmtree :: "path \<Rightarrow> node \<Rightarrow> error + node" where
  \<comment> \<open>\<open>shutil.rmtree\<close>\<close>
  "rmtree p root =
     (case lookup root p of
        None \<Rightarrow> Inl (FileNotFoundError p)
      | Some (File x) \<Rightarrow> Inl (NotADirectoryError p)
      | Some (Dir es) \<Rightarrow> Inr (remove p root))"

definition listdir :: "path \<Rightarrow> node \<Rightarrow> error + string list" where
  \<comment> \<open>\<open>os.listdir\<close>\<close>
  "listdir p root =
     (case lookup root p of
        None \<Rightarrow> Inl (FileNotFoundError p)
      | Some (File x) \<Rightarrow> Inl (NotADirectoryError p)
      | Some (Dir es) \<Rightarrow> Inr (map fst es))"

definition basename :: "path \<Rightarrow> path" where
  "basename p = (if p = [] then [] else [last p])"

definition rename_or_copy :: "path \<Rightarrow> path \<Rightarrow> node \<Rightarrow> error + node" where
  \<comment> \<open>the tail of \<open>shutil.move\<close>: \<open>os.rename\<close>, and the copy it falls back to\<close>
  "rename_or_copy src real_dst root =
     (case lookup root src of
        None \<Rightarrow> Inl (FileNotFoundError src)
      | Some (File c) \<Rightarrow>
          if src = real_dst then Inr root
          else (case lookup root real_dst of
                  Some (Dir es) \<Rightarrow> Inl (IsADirectoryError real_dst)
                | _ \<Rightarrow>
                    (case lookup root (butlast real_dst) of
                       Some (Dir es) \<Rightarrow> Inr (put real_dst (File c) (remove src root))
                     | Some (File x) \<Rightarrow> Inl (NotADirectoryError real_dst)
                     | None \<Rightarrow> Inl (FileNotFoundError real_dst)))
      | Some (Dir es) \<Rightarrow>
          if prefix src real_dst then Inl (ShutilError src)
          else (case lookup root real_dst of
                  Some n \<Rightarrow> Inl (FileExistsError real_dst)
                | None \<Rightarrow>
                    (case mkdirs (butlast real_dst) root of
                       None \<Rightarrow> Inl (NotADirectoryError real_dst)
                     | Some root' \<Rightarrow> Inr (put real_dst (Dir es) (remove src root')))))"

definition shutil_move :: "path \<Rightarrow> path \<Rightarrow> node \<Rightarrow> error + node" where
  \<comment> \<open>\<open>shutil.move(src, dst)\<close>: into \<open>dst\<close> when \<open>dst\<close> is a directory, onto it otherwise\<close>
  "shutil_move src dst root =
     (if isdir root dst then
        (if src = dst then Inr root
         else let real_dst = dst @ basename src in
              if path_exists root real_dst then Inl (ShutilError real_dst)
              else rename_or_copy src real_dst root)
      else rename_or_copy src dst root)"

text \<open>
  An archive decodes to its members, each a path relative to the extraction
  directory.  \<open>extractall\<close> writes them in order and stops at the first failure,
  leaving what it has written so far.
\<close>

datatype member = MDir | MFile string

definition extract_member :: "path \<Rightarrow> path \<Rightarrow> member \<Rightarrow> node \<Rightarrow> node \<times> error option" where
  \<comment> \<open>a directory member is created with its parents; for a file member the parents are
      created, then the file is written\<close>
  "extract_member dest rel m root =
     (case m of
        MDir \<Rightarrow>
          (case makedirs True (dest @ rel) root of
             Inl e \<Rightarrow> (root, Some e)
           | Inr root' \<Rightarrow> (root', None))
      | MFile c \<Rightarrow>
          (case makedirs True (butlast (dest @ rel)) root of
             Inl e \<Rightarrow> (root, Some e)
           | Inr root' \<Rightarrow>
               (case write_file (dest @ rel) c root' of
                  Inl e \<Rightarrow> (root', Some e)
                | Inr root'' \<Rightarrow> (root'', None))))"

fun extractall :: "path \<Rightarrow> (path \<times> member) list \<Rightarrow> node \<Rightarrow> node \<times> error option" where
  "extractall dest [] root = (root, None)"
| "extractall dest ((rel, m) # ms) root =
     (case extract_member dest rel m root of
        (root', Some e) \<Rightarrow> (root', Some e)
      | (root', None) \<Rightarrow> extractall dest ms root')"

section \<open>The world outside: network, archive formats, cmake\<close>

text \<open>
  What a download delivers, what an archive decodes to and what a subprocess
  does are inputs of the model.  A subprocess may change the file system in
  any way before it exits.
\<close>

datatype transfer = Unreachable | Truncated string | Complete string

datatype launch = NoSuchProgram | Exited int

record env =
  net :: "string \<Rightarrow> transfer"
  untar :: "string \<Rightarrow> (path \<times> member) list option"
  unzip :: "string \<Rightarrow> (path \<times> member) list option"
  toolchain :: "string list \<Rightarrow> node \<Rightarrow> launch \<times> node"
  script_dir :: path

text \<open>
  The state is the file system and the trace of the operations that left the
  process: network transfers, archive extractions and subprocess runs.
\<close>

datatype event =
    NetFetch string path
  | TarExtract path path
  | ZipExtract path path
  | Run "string list"

record state =
  disk :: node
  trace :: "event list"

type_synonym step = "state \<Rightarrow> state \<times> error option"

definition andthen :: "step \<Rightarrow> step \<Rightarrow> step" where
  \<comment> \<open>two statements in sequence: an exception in the first skips the second\<close>
  "andthen f g s = (case f s of (s', None) \<Rightarrow> g s' | (s', Some e) \<Rightarrow> (s', Some e))"

definition try_finally :: "step \<Rightarrow> step \<Rightarrow> step" where
  \<comment> \<open>\<open>try: f finally: h\<close>: \<open>h\<close> always runs; its own exception replaces that of \<open>f\<close>\<close>
  "try_finally f h s =
     (case f s of (s', r) \<Rightarrow>
        (case h s' of (s'', None) \<Rightarrow> (s'', r) | (s'', Some e) \<Rightarrow> (s'', Some e)))"

definition on_disk :: "(node \<Rightarrow> error + node) \<Rightarrow> step" where
  "on_disk f s = (case f (disk s) of Inl e \<Rightarrow> (s, Some e) | Inr d \<Rightarrow> (s\<lparr>disk := d\<rparr>, None))"

definition emit :: "event \<Rightarrow> step" where
  "emit ev s = (s\<lparr>trace := trace s @ [ev]\<rparr>, None)"

definition skip :: step where
  "skip s = (s, None)"

definition urlretrieve :: "env \<Rightarrow> string \<Rightarrow> path \<Rightarrow> step" where
  \<comment> \<open>\<open>urllib.request.urlretrieve(url, filename)\<close>: the connection is opened first,
      then the file, then the body is copied\<close>
  "urlretrieve ev url filename =
     andthen (emit (NetFetch url filename))
       (\<lambda>s. case net ev url of
               Unreachable \<Rightarrow> (s, Some (URLError url))
             | Truncated c \<Rightarrow>
                 andthen (on_disk (write_file filename c))
                   (\<lambda>s'. (s', Some (ContentTooShortError url))) s
             | Complete c \<Rightarrow> on_disk (write_file filename c) s)"

definition extract_archive ::
  "(string \<Rightarrow> (path \<times> member) list option) \<Rightarrow> (path \<Rightarrow> path \<Rightarrow> event) \<Rightarrow>
   (path \<Rightarrow> error) \<Rightarrow> path \<Rightarrow> path \<Rightarrow> step" where
  \<comment> \<open>open the archive file, decode it, \<open>extractall(dest)\<close>\<close>
  "extract_archive decode ev bad archive dest s =
     (case lookup (disk s) archive of
        None \<Rightarrow> (s, Some (FileNotFoundError archive))
      | Some (Dir es) \<Rightarrow> (s, Some (IsADirectoryError archive))
      | Some (File c) \<Rightarrow>
          (case decode c of
             None \<Rightarrow> (s, Some (bad archive))
           | Some ms \<Rightarrow>
               (case extractall dest ms (disk s) of
                  (d, r) \<Rightarrow> (s\<lparr>disk := d, trace := trace s @ [ev archive dest]\<rparr>, r))))"

definition tar_extractall :: "env \<Rightarrow> path \<Rightarrow> path \<Rightarrow> step" where
  \<comment> \<open>\<open>with tarfile.open(archive, mode="r:xz") as tar: tar.extractall(dest)\<close>\<close>
  "tar_extractall ev = extract_archive (untar ev) TarExtract ReadError"

definition zip_extractall :: "env \<Rightarrow> path \<Rightarrow> path \<Rightarrow> step" where
  \<comment> \<open>\<open>with zipfile.ZipFile(archive, 'r') as z: z.extractall(dest)\<close>\<close>
  "zip_extractall ev = extract_archive (unzip ev) ZipExtract BadZipFile"

definition exit_error :: "string list \<Rightarrow> launch \<Rightarrow> error option" where
  \<comment> \<open>what \<open>check_call\<close> raises: the program is missing, or it exited with a non-zero status\<close>
  "exit_error cmd r =
     (case r of
        NoSuchProgram \<Rightarrow> Some (FileNotFoundError [hd cmd])
      | Exited rc \<Rightarrow> if rc = 0 then None else Some (CalledProcessError rc cmd))"

definition check_call :: "env \<Rightarrow> string list \<Rightarrow> step" where
  \<comment> \<open>\<open>subprocess.check_call(cmd)\<close>: waits for the process, raises on a non-zero exit\<close>
  "check_call ev cmd s =
     (case toolchain ev cmd (disk s) of
        (r, d) \<Rightarrow> (s\<lparr>disk := d, trace := trace s @ [Run cmd]\<rparr>, exit_error cmd r))"

section \<open>prepare\_mole.py\<close>

definition ARMADILLO_SOURCE :: string where
  "ARMADILLO_SOURCE = ''https://sourceforge.net/projects/arma/files/armadillo-12.6.6.tar.xz''"

definition MOLE_REPO :: string where
  "MOLE_REPO = ''https://github.com/csrc-sdsu/mole/archive/refs/heads/main.zip''"

definition MOLE_DIR :: string where
  "MOLE_DIR = ''mole-main''"

definition fspath :: "path \<Rightarrow> string" where
  \<comment> \<open>a path as the string handed to a subprocess\<close>
  "fspath p = concat (map (\<lambda>c. ''/'' @ c) p)"

definition cmake_configure :: "path \<Rightarrow> path \<Rightarrow> string list" where
  "cmake_configure source_dir build_dir =
     [''cmake'', ''-S'', fspath source_dir, ''-B'', fspath build_dir,
      ''-DARMADILLO_USE_SUPERLU=ON'',
      ''-DARMADILLO_USE_OPENMP=ON'',
      ''-DCMAKE_POLICY_VERSION_MINIMUM=3.5'']"

definition cmake_build :: "path \<Rightarrow> string list" where
  "cmake_build build_dir = [''cmake'', ''--build'', fspath build_dir, ''--config'', ''Release'']"

definition build_armadillo :: "env \<Rightarrow> path \<Rightarrow> step" where
  "build_armadillo ev source_dir =
     (let build_dir = source_dir @ [''build''] in
      andthen (on_disk (makedirs True build_dir))
     (andthen (check_call ev (cmake_configure source_dir build_dir))
              (check_call ev (cmake_build build_dir))))"

text \<open>The three numbered blocks of \<open>download_dependencies\<close>, then the function.\<close>

definition dd_download :: "env \<Rightarrow> path \<Rightarrow> step" where
  \<comment> \<open>1. Download the tar.xz if not already present\<close>
  "dd_download ev temp_dir s =
     (let archive_name = temp_dir @ [''armadillo-12.6.6.tar.xz''] in
      if \<not> path_exists (disk s) archive_name
      then urlretrieve ev ARMADILLO_SOURCE archive_name s
      else skip s)"

definition dd_extract :: "env \<Rightarrow> path \<Rightarrow> path \<Rightarrow> step" where
  \<comment> \<open>2. Extract tar.xz\<close>
  "dd_extract ev temp_dir target_dir s =
     (let archive_name = temp_dir @ [''armadillo-12.6.6.tar.xz''];
          package_dir = target_dir @ [''armadillo-12.6.6''] in
      if \<not> path_exists (disk s) package_dir
      then tar_extractall ev archive_name target_dir s
      else skip s)"

definition dd_build :: "env \<Rightarrow> path \<Rightarrow> step" where
  \<comment> \<open>3. Build Armadillo\<close>
  "dd_build ev target_dir s =
     (let package_dir = target_dir @ [''armadillo-12.6.6''] in
      if \<not> path_exists (disk s) (package_dir @ [''build''])
      then build_armadillo ev package_dir s
      else skip s)"

definition download_dependencies :: "env \<Rightarrow> path \<Rightarrow> path \<Rightarrow> step" where
  "download_dependencies ev temp_dir target_dir =
     andthen (dd_download ev temp_dir)
    (andthen (dd_extract ev temp_dir target_dir)
             (dd_build ev target_dir))"

definition download_mole :: "env \<Rightarrow> path \<Rightarrow> step" where
  "download_mole ev target_dir =
     (let zip_path = target_dir @ [''mole.zip''] in
      andthen (urlretrieve ev MOLE_REPO zip_path)
     (andthen (zip_extractall ev zip_path target_dir)
              (on_disk (unlink zip_path))))"

fun move_items :: "path \<Rightarrow> path \<Rightarrow> string list \<Rightarrow> step" where
  \<comment> \<open>the \<open>for item in os.listdir(mole_cpp_dir)\<close> loop\<close>
  "move_items mole_cpp_dir cpp_dir [] s = (s, None)"
| "move_items mole_cpp_dir cpp_dir (item # items) s =
     (case on_disk (shutil_move (mole_cpp_dir @ [item]) (cpp_dir @ [item])) s of
        (s', Some e) \<Rightarrow> (s', Some e)
      | (s', None) \<Rightarrow> move_items mole_cpp_dir cpp_dir items s')"

definition copy_mole_sources :: "path \<Rightarrow> path \<Rightarrow> step" where
  "copy_mole_sources source_dir target_dir =
     (let cpp_dir = target_dir @ [''cpp''];
          mole_cpp_dir = source_dir @ [MOLE_DIR, ''src'', ''cpp''] in
      andthen (on_disk (mkdir True cpp_dir))
     (andthen (\<lambda>s. if \<not> path_exists (disk s) cpp_dir
                    then on_disk (makedirs False cpp_dir) s else skip s)
              (\<lambda>s. case listdir mole_cpp_dir (disk s) of
                      Inl e \<Rightarrow> (s, Some e)
                    | Inr items \<Rightarrow> move_items mole_cpp_dir cpp_dir items s)))"

text \<open>
  \<open>prepare_mole\<close>: the paths it derives from its argument, the body of its
  \<open>try\<close> block, its \<open>finally\<close> block, and the function.
\<close>

definition base_dir_of :: "env \<Rightarrow> path option \<Rightarrow> path" where
  \<comment> \<open>\<open>if base_dir is None: base_dir = Path(__file__).parent\<close>\<close>
  "base_dir_of ev base_dir_arg = (case base_dir_arg of None \<Rightarrow> script_dir ev | Some b \<Rightarrow> b)"

definition try_body :: "env \<Rightarrow> path \<Rightarrow> path \<Rightarrow> step" where
  "try_body ev temp_dir target_dir =
     andthen (download_dependencies ev temp_dir (target_dir @ [''cpp'']))
    (andthen (download_mole ev temp_dir)
             (copy_mole_sources temp_dir target_dir))"

definition cleanup :: "path \<Rightarrow> step" where
  \<comment> \<open>\<open>if temp_dir.exists(): shutil.rmtree(temp_dir)\<close>\<close>
  "cleanup temp_dir s =
     (if path_exists (disk s) temp_dir then on_disk (rmtree temp_dir) s else skip s)"

definition prepare_mole :: "env \<Rightarrow> path option \<Rightarrow> step" where
  "prepare_mole ev base_dir_arg =
     (let base_dir = base_dir_of ev base_dir_arg;
          temp_dir = base_dir @ [''temp_build''];
          target_dir = base_dir @ [''src'', ''pymole'', ''cpp''] in
      andthen (on_disk (mkdir True temp_dir))
        (try_finally (try_body ev temp_dir target_dir) (cleanup temp_dir)))"

section \<open>Comparing what two file systems hold at a path\<close>

text \<open>
  Two lookups are of the same kind when both are absent, both are the same
  regular file, or both are directories.
\<close>

fun same_kind :: "node option \<Rightarrow> node option \<Rightarrow> bool" where
  "same_kind None None = True"
| "same_kind (Some (File a)) (Some (File b)) = (a = b)"
| "same_kind (Some (Dir a)) (Some (Dir b)) = True"
| "same_kind _ _ = False"

section \<open>Properties of the disk that a step keeps\<close>

definition keeps :: "(node \<Rightarrow> bool) \<Rightarrow> step \<Rightarrow> bool" where
  \<comment> \<open>whatever the step does and however it ends, it leaves a disk with \<open>P\<close> a disk with \<open>P\<close>\<close>
  "keeps P f = (\<forall>s. P (disk s) \<longrightarrow> P (disk (fst (f s))))"

section \<open>Counting what a run did\<close>

fun is_net :: "event \<Rightarrow> bool" where
  "is_net (NetFetch url p) = True"
| "is_net ev = False"

fun is_run :: "event \<Rightarrow> bool" where
  "is_run (Run cmd) = True"
| "is_run ev = False"

definition network_ops :: "event list \<Rightarrow> nat" where
  "network_ops evs = length (filter is_net evs)"

definition build_ops :: "event list \<Rightarrow> nat" where
  "build_ops evs = length (filter is_run evs)"

definition runfree :: "step \<Rightarrow> bool" where
  \<comment> \<open>the step starts no subprocess\<close>
  "runfree f = (\<forall>s. filter is_run (trace (fst (f s))) = filter is_run (trace s))"

definition silent :: "step \<Rightarrow> bool" where
  \<comment> \<open>the step adds nothing to the trace\<close>
  "silent f = (\<forall>s. trace (fst (f s)) = trace s)"

definition quiet_on :: "(node \<Rightarrow> bool) \<Rightarrow> step \<Rightarrow> bool" where
  \<comment> \<open>from a disk with \<open>P\<close> the step keeps \<open>P\<close> and starts no subprocess\<close>
  "quiet_on P f =
     (\<forall>s. P (disk s) \<longrightarrow>
          P (disk (fst (f s))) \<and> filter is_run (trace (fst (f s))) = filter is_run (trace s))"

section \<open>A small concrete world\<close>

text \<open>
  Both downloads succeed, the tarball holds the Armadillo tree with one header,
  the zip holds two MOLE sources, and cmake exits with status 0 and writes
  nothing.
\<close>

definition world0 :: env where
  "world0 =
     \<lparr> net = (\<lambda>u. if u = ARMADILLO_SOURCE then Complete ''TAR''
                  else if u = MOLE_REPO then Complete ''ZIP'' else Unreachable),
       untar = (\<lambda>c. if c = ''TAR''
                    then Some [([''armadillo-12.6.6''], MDir),
                               ([''armadillo-12.6.6'', ''a.h''], MFile ''A'')]
                    else None),
       unzip = (\<lambda>c. if c = ''ZIP''
                    then Some [([''mole-main'', ''src'', ''cpp'', ''m.h''], MFile ''M''),
                               ([''mole-main'', ''src'', ''cpp'', ''m.cpp''], MFile ''C'')]
                    else None),
       toolchain = (\<lambda>cmd d. (Exited 0, d)),
       script_dir = [''here''] \<rparr>"

definition s_zip :: state where
  \<comment> \<open>a directory \<open>t\<close> that already holds a \<open>mole.zip\<close>\<close>
  "s_zip = \<lparr> disk = Dir [(''t'', Dir [(''mole.zip'', File ''OLD'')])], trace = [] \<rparr>"

definition s_tar :: state where
  \<comment> \<open>a directory \<open>t\<close> that already holds the Armadillo archive\<close>
  "s_tar = \<lparr> disk = Dir [(''t'', Dir [(''armadillo-12.6.6.tar.xz'', File ''TAR'')])],
             trace = [] \<rparr>"


definition s_pkg :: state where
  \<comment> \<open>the Armadillo archive in \<open>t\<close>, and \<open>armadillo-12.6.6\<close> already in \<open>d\<close>\<close>
  "s_pkg = \<lparr> disk = Dir [(''t'', Dir [(''armadillo-12.6.6.tar.xz'', File ''TAR'')]),
                          (''d'', Dir [(''armadillo-12.6.6'', Dir [])])],
             trace = [] \<rparr>"


definition s_built :: state where
  \<comment> \<open>\<open>armadillo-12.6.6\<close> in \<open>d\<close>, with its \<open>build\<close> directory\<close>
  "s_built = \<lparr> disk = Dir [(''d'', Dir [(''armadillo-12.6.6'', Dir [(''build'', Dir [])])])],
               trace = [] \<rparr>"

definition world_fail :: env where
  \<comment> \<open>as \<open>world0\<close>, but \<open>cmake --build\<close> exits with status 2\<close>
  "world_fail =
     world0\<lparr> toolchain := (\<lambda>cmd d. (if cmd ! 1 = ''--build'' then Exited 2 else Exited 0, d)) \<rparr>"

definition s_stage :: state where
  \<comment> \<open>an extracted MOLE tree in \<open>t\<close> with a file and a directory under \<open>src/cpp\<close>, and an
      empty host directory \<open>h\<close>\<close>
  "s_stage =
     \<lparr> disk = Dir [(''t'', Dir [(''mole-main'', Dir [(''src'', Dir [(''cpp'',
                       Dir [(''m.h'', File ''M''), (''sub'', Dir [(''x.cpp'', File ''X'')])])])])]),
                   (''h'', Dir [])],
       trace = [] \<rparr>"


definition s_nosrc :: state where
  \<comment> \<open>a host directory with \<open>cpp\<close>, and no MOLE tree at all\<close>
  "s_nosrc = \<lparr> disk = Dir [(''h'', Dir [(''cpp'', Dir [])])], trace = [] \<rparr>"

definition s_fresh :: state where
  \<comment> \<open>a project directory \<open>p\<close> with nothing in it\<close>
  "s_fresh = \<lparr> disk = Dir [(''p'', Dir [])], trace = [] \<rparr>"

definition s_second :: state where
  \<comment> \<open>the disk a first run in \<open>world0\<close> leaves behind, with an empty trace\<close>
  "s_second = (fst (prepare_mole world0 (Some [''p'']) s_fresh))\<lparr> trace := [] \<rparr>"


section \<open>Running the pipeline again and again\<close>

fun reruns :: "(env \<times> path option) list \<Rightarrow> state \<Rightarrow> state" where
  \<comment> \<open>one invocation of \<open>prepare_mole\<close> after the other, whatever each returns\<close>
  "reruns [] s = s"
| "reruns ((ev, arg) # rs) s = reruns rs (fst (prepare_mole ev arg s))"

definition s_failed :: state where
  \<comment> \<open>what a run in \<open>world_fail\<close> leaves behind\<close>
  "s_failed = fst (prepare_mole world_fail (Some [''p'']) s_fresh)"

section \<open>Facts about the file system\<close>

lemma lookup_append:
  "lookup d (p @ r) = (case lookup d p of None \<Rightarrow> None | Some m \<Rightarrow> lookup m r)"
proof (induction d p rule: lookup.induct)
  case (1 n) show ?case by simp
next
  case (2 x c cs) show ?case by simp
next
  case (3 es c cs) then show ?case by (simp split: option.splits)
qed

lemma same_kind_refl [simp]: "same_kind a a"
proof (cases a)
  case None then show ?thesis by simp
next
  case (Some n) then show ?thesis by (cases n) simp_all
qed

lemma put_same_kind:
  "\<not> prefix p q \<Longrightarrow> same_kind (lookup (put p n d) q) (lookup d q)"
proof (induction q arbitrary: p d)
  case Nil
  then obtain c cs where p: "p = c # cs" by (cases p) auto
  show ?case by (cases d) (simp_all add: p split: option.splits)
next
  case (Cons x xs)
  then obtain c cs where p: "p = c # cs" by (cases p) auto
  show ?case
  proof (cases d)
    case (File y) then show ?thesis by (simp add: p)
  next
    case (Dir es)
    show ?thesis
    proof (cases "c = x")
      case False
      then show ?thesis by (simp add: p Dir update_conv' split: option.splits)
    next
      case True
      with Cons.prems p have np: "\<not> prefix cs xs" by simp
      then have "cs \<noteq> []" by auto
      with Cons.IH[OF np] True show ?thesis
        by (simp add: p Dir update_conv' split: option.splits)
    qed
  qed
qed

lemma put_lookup_other:
  "\<not> prefix p q \<Longrightarrow> \<not> prefix q p \<Longrightarrow> lookup (put p n d) q = lookup d q"
proof (induction q arbitrary: p d)
  case Nil then show ?case by simp
next
  case (Cons x xs)
  then obtain c cs where p: "p = c # cs" by (cases p) auto
  show ?case
  proof (cases d)
    case (File y) then show ?thesis by (simp add: p)
  next
    case (Dir es)
    show ?thesis
    proof (cases "c = x")
      case False
      then show ?thesis by (simp add: p Dir update_conv' split: option.splits)
    next
      case True
      with Cons.prems p have np: "\<not> prefix cs xs" "\<not> prefix xs cs" by simp_all
      then have "cs \<noteq> []" by auto
      with Cons.IH[OF np] True show ?thesis
        by (simp add: p Dir update_conv' split: option.splits)
    qed
  qed
qed

lemma put_lookup_at:
  "p \<noteq> [] \<Longrightarrow> isdir d (butlast p) \<Longrightarrow> lookup (put p n d) (p @ r) = lookup n r"
proof (induction p arbitrary: d)
  case Nil then show ?case by simp
next
  case (Cons c cs)
  show ?case
  proof (cases d)
    case (File y) with Cons.prems show ?thesis by (cases cs) (simp_all add: isdir_def)
  next
    case (Dir es)
    show ?thesis
    proof (cases "cs = []")
      case True then show ?thesis by (simp add: Dir update_conv')
    next
      case False
      with Cons.prems Dir obtain ch where ch: "map_of es c = Some ch" "isdir ch (butlast cs)"
        by (auto simp: isdir_def split: option.splits)
      with Cons.IH[OF False ch(2)] False show ?thesis by (simp add: Dir update_conv')
    qed
  qed
qed

lemma remove_same_kind:
  "\<not> prefix p q \<Longrightarrow> same_kind (lookup (remove p d) q) (lookup d q)"
proof (induction q arbitrary: p d)
  case Nil
  then obtain c cs where p: "p = c # cs" by (cases p) auto
  show ?case by (cases d) (simp_all add: p split: option.splits)
next
  case (Cons x xs)
  then obtain c cs where p: "p = c # cs" by (cases p) auto
  show ?case
  proof (cases d)
    case (File y) then show ?thesis by (simp add: p)
  next
    case (Dir es)
    show ?thesis
    proof (cases "c = x")
      case False
      then show ?thesis by (simp add: p Dir update_conv' delete_conv' split: option.splits)
    next
      case True
      with Cons.prems p have np: "\<not> prefix cs xs" by simp
      then have "cs \<noteq> []" by auto
      with Cons.IH[OF np] True show ?thesis
        by (simp add: p Dir update_conv' split: option.splits)
    qed
  qed
qed

lemma remove_lookup_other:
  "\<not> prefix p q \<Longrightarrow> \<not> prefix q p \<Longrightarrow> lookup (remove p d) q = lookup d q"
proof (induction q arbitrary: p d)
  case Nil then show ?case by simp
next
  case (Cons x xs)
  then obtain c cs where p: "p = c # cs" by (cases p) auto
  show ?case
  proof (cases d)
    case (File y) then show ?thesis by (simp add: p)
  next
    case (Dir es)
    show ?thesis
    proof (cases "c = x")
      case False
      then show ?thesis by (simp add: p Dir update_conv' delete_conv' split: option.splits)
    next
      case True
      with Cons.prems p have np: "\<not> prefix cs xs" "\<not> prefix xs cs" by simp_all
      then have "cs \<noteq> []" by auto
      with Cons.IH[OF np] True show ?thesis
        by (simp add: p Dir update_conv' split: option.splits)
    qed
  qed
qed

lemma remove_lookup_at:
  "p \<noteq> [] \<Longrightarrow> lookup (remove p d) (p @ r) = None"
proof (induction p arbitrary: d)
  case Nil then show ?case by simp
next
  case (Cons c cs)
  show ?case
  proof (cases d)
    case (File y) then show ?thesis by simp
  next
    case (Dir es)
    show ?thesis
    proof (cases "cs = []")
      case True then show ?thesis by (simp add: Dir delete_conv')
    next
      case False
      with Cons.IH[OF False] show ?thesis
        by (simp add: Dir update_conv' split: option.splits)
    qed
  qed
qed

lemma isdir_Nil [simp]: "isdir (Dir es) []" "\<not> isdir (File x) []"
  by (simp_all add: isdir_def)

lemma isdir_File_Cons [simp]: "\<not> isdir (File x) (c # cs)"
  by (simp add: isdir_def)

lemma isdir_Dir_Cons:
  "isdir (Dir es) (c # cs) = (case map_of es c of None \<Rightarrow> False | Some ch \<Rightarrow> isdir ch cs)"
  by (simp add: isdir_def split: option.splits)

lemma mkdirs_isdir_id: "isdir d p \<Longrightarrow> mkdirs p d = Some d"
proof (induction p arbitrary: d)
  case Nil then show ?case by (cases d) simp_all
next
  case (Cons c cs)
  then obtain es where d: "d = Dir es" by (cases d) simp_all
  with Cons.prems obtain ch where ch: "map_of es c = Some ch" "isdir ch cs"
    by (auto simp: isdir_Dir_Cons split: option.splits)
  from Cons.IH[OF ch(2)] ch(1) show ?case
    by (simp add: d update_triv)
qed

lemma mkdirs_result_isdir: "mkdirs p d = Some d' \<Longrightarrow> isdir d' p"
proof (induction p arbitrary: d d')
  case Nil then show ?case by (cases d) auto
next
  case (Cons c cs)
  then obtain es where d: "d = Dir es" by (cases d) simp_all
  from Cons.prems obtain ch' where
    ch': "mkdirs cs (case map_of es c of None \<Rightarrow> Dir [] | Some ch \<Rightarrow> ch) = Some ch'"
         "d' = Dir (AList.update c ch' es)"
    by (auto simp: d split: option.splits)
  from Cons.IH[OF ch'(1)] show ?case
    by (simp add: ch'(2) isdir_Dir_Cons update_conv')
qed

lemma lookup_Dir_Nil [simp]: "q \<noteq> [] \<Longrightarrow> lookup (Dir []) q = None"
  by (cases q) simp_all

lemma mkdirs_lookup_other:
  "mkdirs p d = Some d' \<Longrightarrow> \<not> prefix q p \<Longrightarrow> lookup d' q = lookup d q"
proof (induction p arbitrary: d d' q)
  case Nil
  then show ?case by (cases d) auto
next
  case (Cons c cs)
  then obtain es where d: "d = Dir es" by (cases d) simp_all
  from Cons.prems obtain ch' where
    ch': "mkdirs cs (case map_of es c of None \<Rightarrow> Dir [] | Some ch \<Rightarrow> ch) = Some ch'"
         "d' = Dir (AList.update c ch' es)"
    by (auto simp: d split: option.splits)
  from Cons.prems(2) obtain x xs where q: "q = x # xs" by (cases q) auto
  show ?case
  proof (cases "x = c")
    case False
    then show ?thesis by (simp add: q d ch'(2) update_conv')
  next
    case True
    with Cons.prems(2) q have np: "\<not> prefix xs cs" by simp
    then have "xs \<noteq> []" by auto
    with Cons.IH[OF ch'(1) np] True show ?thesis
      by (simp add: q d ch'(2) update_conv' split: option.splits)
  qed
qed

lemma mkdirs_keeps_kind:
  "mkdirs p d = Some d' \<Longrightarrow> lookup d q \<noteq> None \<Longrightarrow> same_kind (lookup d' q) (lookup d q)"
proof (induction p arbitrary: d d' q)
  case Nil
  then show ?case by (cases d) auto
next
  case (Cons c cs)
  then obtain es where d: "d = Dir es" by (cases d) simp_all
  from Cons.prems obtain ch' where
    ch': "mkdirs cs (case map_of es c of None \<Rightarrow> Dir [] | Some ch \<Rightarrow> ch) = Some ch'"
         "d' = Dir (AList.update c ch' es)"
    by (auto simp: d split: option.splits)
  show ?case
  proof (cases q)
    case Nil then show ?thesis by (simp add: d ch'(2))
  next
    case (Cons x xs)
    show ?thesis
    proof (cases "x = c")
      case False
      then show ?thesis by (simp add: Cons d ch'(2) update_conv')
    next
      case True
      with Cons.prems(2) Cons d obtain ch where ch: "map_of es c = Some ch" "lookup ch xs \<noteq> None"
        by (auto split: option.splits)
      from ch'(1) ch(1) have "mkdirs cs ch = Some ch'" by simp
      from Cons.IH[OF this ch(2)] True ch(1) show ?thesis
        by (simp add: Cons d ch'(2) update_conv')
    qed
  qed
qed

lemma mkdirs_child:
  "isdir d p \<Longrightarrow> lookup d (p @ [c]) = None \<Longrightarrow> mkdirs (p @ [c]) d = Some (put (p @ [c]) (Dir []) d)"
proof (induction p arbitrary: d)
  case Nil
  then obtain es where d: "d = Dir es" by (cases d) simp_all
  with Nil show ?case by (simp split: option.splits)
next
  case (Cons x xs)
  then obtain es where d: "d = Dir es" by (cases d) simp_all
  with Cons.prems obtain ch where ch: "map_of es x = Some ch" "isdir ch xs"
    by (auto simp: isdir_Dir_Cons split: option.splits)
  with Cons.prems(2) have "lookup ch (xs @ [c]) = None" by (simp add: d)
  from Cons.IH[OF ch(2) this] ch(1) show ?case by (simp add: d)
qed

lemma same_kind_isdir:
  "same_kind (lookup d' q) (lookup d q) \<Longrightarrow> isdir d' q = isdir d q"
  by (cases "(lookup d' q, lookup d q)" rule: same_kind.cases) (auto simp: isdir_def)

lemma same_kind_exists:
  "same_kind (lookup d' q) (lookup d q) \<Longrightarrow> path_exists d' q = path_exists d q"
  by (cases "(lookup d' q, lookup d q)" rule: same_kind.cases) (auto simp: path_exists_def)

lemma same_kind_None:
  "same_kind a None \<Longrightarrow> a = None"
  by (cases "(a, None :: node option)" rule: same_kind.cases) auto

subsection \<open>Writing files and extracting archives\<close>

lemma lookup_snoc_isdir:
  "lookup d (p @ c # r) \<noteq> None \<Longrightarrow> isdir d p"
proof -
  assume a: "lookup d (p @ c # r) \<noteq> None"
  then obtain m where m: "lookup d p = Some m" "lookup m (c # r) \<noteq> None"
    by (auto simp: lookup_append split: option.splits)
  then show ?thesis by (cases m) (simp_all add: isdir_def)
qed

lemma exists_parent_isdir:
  "p \<noteq> [] \<Longrightarrow> lookup d p \<noteq> None \<Longrightarrow> isdir d (butlast p)"
  using lookup_snoc_isdir[of d "butlast p" "last p" "[]"] by simp

lemma write_file_Inr:
  assumes "write_file p c d = Inr d'"
  shows "d' = put p (File c) d" and "p = [] \<or> isdir d (butlast p)" and "\<not> isdir d p"
proof -
  from assms show "d' = put p (File c) d"
    by (auto simp: write_file_def split: option.splits node.splits)
  from assms show "\<not> isdir d p"
    by (auto simp: write_file_def isdir_def split: option.splits node.splits)
  show "p = [] \<or> isdir d (butlast p)"
  proof (cases "lookup d p")
    case None
    with assms show ?thesis
      by (auto simp: write_file_def isdir_def split: option.splits node.splits)
  next
    case (Some n)
    then show ?thesis using exists_parent_isdir[of p d] by auto
  qed
qed

lemma write_file_at:
  assumes "write_file p c d = Inr d'"
  shows "lookup d' p = Some (File c)"
proof (cases "p = []")
  case True
  with write_file_Inr(1)[OF assms] show ?thesis by simp
next
  case False
  with write_file_Inr[OF assms] put_lookup_at[of p d "File c" "[]"] show ?thesis by auto
qed

lemma write_file_mono:
  assumes "write_file p c d = Inr d'" and "path_exists d q"
  shows "path_exists d' q"
proof (cases "prefix p q")
  case False
  from put_same_kind[OF False, of "File c" d] write_file_Inr(1)[OF assms(1)] assms(2)
  show ?thesis by (simp add: same_kind_exists)
next
  case True
  then obtain r where q: "q = p @ r" by (auto simp: prefix_def)
  show ?thesis
  proof (cases r)
    case Nil
    with q write_file_at[OF assms(1)] show ?thesis by (simp add: path_exists_def)
  next
    case (Cons x xs)
    with q assms(2) have "isdir d p"
      using lookup_snoc_isdir[of d p x xs] by (simp add: path_exists_def)
    with write_file_Inr(3)[OF assms(1)] show ?thesis by simp
  qed
qed

lemma makedirs_mono:
  assumes "makedirs ok p d = Inr d'" and "path_exists d q"
  shows "path_exists d' q"
proof (cases "path_exists d p")
  case True
  with assms show ?thesis by (auto simp: makedirs_def split: if_splits)
next
  case False
  with assms(1) have m: "mkdirs p d = Some d'"
    by (auto simp: makedirs_def split: option.splits)
  from assms(2) have "lookup d q \<noteq> None" by (simp add: path_exists_def)
  from mkdirs_keeps_kind[OF m this] assms(2) show ?thesis by (simp add: same_kind_exists)
qed

lemma makedirs_at:
  assumes "makedirs True p d = Inr d'"
  shows "isdir d' p"
proof (cases "path_exists d p")
  case True
  with assms show ?thesis by (auto simp: makedirs_def split: if_splits)
next
  case False
  with assms have m: "mkdirs p d = Some d'"
    by (auto simp: makedirs_def split: option.splits)
  then show ?thesis by (rule mkdirs_result_isdir)
qed

lemma isdir_exists: "isdir d p \<Longrightarrow> path_exists d p"
  by (auto simp: isdir_def path_exists_def split: option.splits)

lemma extract_member_mono:
  assumes "path_exists d q"
  shows "path_exists (fst (extract_member dest rel m d)) q"
proof (cases m)
  case MDir
  with assms show ?thesis
    by (auto simp: extract_member_def split: sum.splits intro: makedirs_mono)
next
  case (MFile c)
  show ?thesis
  proof (cases "makedirs True (butlast (dest @ rel)) d")
    case (Inl e)
    with MFile assms show ?thesis by (simp add: extract_member_def)
  next
    case (Inr d1)
    from makedirs_mono[OF Inr assms] have p1: "path_exists d1 q" .
    show ?thesis
    proof (cases "write_file (dest @ rel) c d1")
      case (Inl e)
      with MFile Inr p1 show ?thesis by (simp add: extract_member_def)
    next
      case (Inr d2)
      from write_file_mono[OF Inr p1] MFile \<open>makedirs True (butlast (dest @ rel)) d = Inr d1\<close> Inr
      show ?thesis by (simp add: extract_member_def)
    qed
  qed
qed





subsection \<open>Moving\<close>

lemma put_lookup_par: "p \<parallel> q \<Longrightarrow> lookup (put p n d) q = lookup d q"
  by (simp add: put_lookup_other parallel_def)

lemma remove_lookup_par: "p \<parallel> q \<Longrightarrow> lookup (remove p d) q = lookup d q"
  by (simp add: remove_lookup_other parallel_def)


lemma par_app1: "p \<parallel> q \<Longrightarrow> p @ x \<parallel> q"
  using parallel_append[of p q x "[]"] by simp

lemma par_app2: "p \<parallel> q \<Longrightarrow> p \<parallel> q @ y"
  using parallel_append[of p q "[]" y] by simp

lemma not_prefix_butlast: "\<not> prefix q r \<Longrightarrow> \<not> prefix q (butlast r)"
  using prefix_order.trans[OF _ prefixeq_butlast] by blast

lemma remove_lookup_parent:
  "lookup d p = Some (Dir es) \<Longrightarrow> lookup (remove (p @ [c]) d) p = Some (Dir (AList.delete c es))"
proof (induction p arbitrary: d)
  case Nil then show ?case by simp
next
  case (Cons x xs)
  then obtain fs where d: "d = Dir fs" by (cases d) simp_all
  with Cons.prems obtain ch where ch: "map_of fs x = Some ch" "lookup ch xs = Some (Dir es)"
    by (auto split: option.splits)
  from Cons.IH[OF ch(2)] ch(1) show ?case by (simp add: d update_conv')
qed

lemma rename_or_copy_Inr:
  assumes "rename_or_copy s r d = Inr d'" and "s \<noteq> r"
  obtains n d0 where "lookup d s = Some n" and "d' = put r n (remove s d0)"
    and "d0 = d \<or> mkdirs (butlast r) d = Some d0" and "isdir d0 (butlast r)"
proof (cases "lookup d s")
  case None
  with assms show ?thesis by (simp add: rename_or_copy_def)
next
  case (Some n)
  show ?thesis
  proof (cases n)
    case (File c)
    with Some assms have "isdir d (butlast r)" "d' = put r n (remove s d)"
      by (auto simp: rename_or_copy_def isdir_def split: option.splits node.splits)
    with Some that show ?thesis by blast
  next
    case (Dir es)
    with Some assms obtain d0 where "mkdirs (butlast r) d = Some d0" "d' = put r n (remove s d0)"
      by (auto simp: rename_or_copy_def split: option.splits if_splits)
    with Some that mkdirs_result_isdir show ?thesis by blast
  qed
qed

lemma shutil_move_Inr:
  assumes "shutil_move s t d = Inr d'" and "s \<parallel> t"
  obtains n d0 r where "lookup d s = Some n" and "d' = put r n (remove s d0)"
    and "d0 = d \<or> mkdirs (butlast r) d = Some d0" and "isdir d0 (butlast r)"
    and "if isdir d t then r = t @ [last s] else r = t"
proof -
  from assms(2) have ne: "s \<noteq> []" "s \<noteq> t" by auto
  show ?thesis
  proof (cases "isdir d t")
    case True
    with assms ne have rc: "rename_or_copy s (t @ [last s]) d = Inr d'"
      by (auto simp: shutil_move_def basename_def Let_def split: if_splits)
    from assms(2) have "s \<noteq> t @ [last s]" by (metis parallelD2 prefixI)
    from rename_or_copy_Inr[OF rc this] True that show ?thesis by metis
  next
    case False
    with assms have rc: "rename_or_copy s t d = Inr d'" by (simp add: shutil_move_def)
    from rename_or_copy_Inr[OF rc ne(2)] False that show ?thesis by metis
  qed
qed



lemma shutil_move_source:
  assumes "shutil_move (p @ [c]) t d = Inr d'" and "p \<parallel> t" and "lookup d p = Some (Dir es)"
  shows "lookup d' p = Some (Dir (AList.delete c es))"
proof -
  from assms(2) have st: "p @ [c] \<parallel> t" by (rule par_app1)
  from shutil_move_Inr[OF assms(1) st] obtain n d0 r where
    m: "d' = put r n (remove (p @ [c]) d0)" "d0 = d \<or> mkdirs (butlast r) d = Some d0"
       "if isdir d t then r = t @ [last (p @ [c])] else r = t" by metis
  from assms(2) have "t \<parallel> p" by (simp add: parallel_commute)
  with m(3) have rp: "r \<parallel> p" by (auto split: if_splits intro: par_app1)
  then have "\<not> prefix p (butlast r)" using not_prefix_butlast parallelD2 by blast
  with m(2) assms(3) have "lookup d0 p = Some (Dir es)" by (auto dest: mkdirs_lookup_other)
  from remove_lookup_parent[OF this] m(1) rp show ?thesis by (simp add: put_lookup_par)
qed

lemma shutil_move_keeps_isdir:
  assumes "shutil_move s t d = Inr d'" and "s \<parallel> t" and "isdir d q"
      and "\<not> prefix s q" and "\<not> prefix t q"
  shows "isdir d' q"
proof -
  from shutil_move_Inr[OF assms(1,2)] obtain n d0 r where
    m: "d' = put r n (remove s d0)" "d0 = d \<or> mkdirs (butlast r) d = Some d0"
       "if isdir d t then r = t @ [last s] else r = t" by metis
  from m(3) assms(5) have rq: "\<not> prefix r q"
    by (auto split: if_splits dest: append_prefixD)
  from assms(3) have ex: "lookup d q \<noteq> None" by (auto simp: isdir_def split: option.splits)
  from m(2) have "isdir d0 q"
  proof (elim disjE)
    assume "d0 = d" with assms(3) show ?thesis by simp
  next
    assume "mkdirs (butlast r) d = Some d0"
    from mkdirs_keeps_kind[OF this ex] assms(3) show ?thesis by (simp add: same_kind_isdir)
  qed
  with remove_same_kind[OF assms(4), of d0] have "isdir (remove s d0) q"
    by (simp add: same_kind_isdir)
  with put_same_kind[OF rq, of n "remove s d0"] m(1) show ?thesis
    by (simp add: same_kind_isdir)
qed

subsection \<open>What steps and library calls keep\<close>

lemma keepsI: "(\<And>s. P (disk s) \<Longrightarrow> P (disk (fst (f s)))) \<Longrightarrow> keeps P f"
  by (simp add: keeps_def)

lemma keepsD: "keeps P f \<Longrightarrow> P (disk s) \<Longrightarrow> P (disk (fst (f s)))"
  by (simp add: keeps_def)

lemma keepsD2: "keeps P f \<Longrightarrow> P (disk s) \<Longrightarrow> f s = (s', r) \<Longrightarrow> P (disk s')"
  by (auto simp: keeps_def)

lemma keeps_andthen: "keeps P f \<Longrightarrow> keeps P g \<Longrightarrow> keeps P (andthen f g)"
  by (rule keepsI) (auto simp: andthen_def keeps_def split: prod.splits option.splits)

lemma keeps_on_disk: "(\<And>d d'. P d \<Longrightarrow> f d = Inr d' \<Longrightarrow> P d') \<Longrightarrow> keeps P (on_disk f)"
  by (rule keepsI) (auto simp: on_disk_def split: sum.splits)

lemma keeps_skip: "keeps P skip"
  by (simp add: keeps_def skip_def)

lemma keeps_emit: "keeps P (emit e)"
  by (simp add: keeps_def emit_def)

lemma keeps_if: "keeps P f \<Longrightarrow> keeps P g \<Longrightarrow> keeps P (\<lambda>s. if b s then f s else g s)"
  by (simp add: keeps_def)

lemma keeps_urlretrieve:
  assumes "\<And>c d d'. P d \<Longrightarrow> write_file p c d = Inr d' \<Longrightarrow> P d'"
  shows "keeps P (urlretrieve ev url p)"
proof (rule keepsI)
  fix s :: state assume "P (disk s)"
  with assms show "P (disk (fst (urlretrieve ev url p s)))"
    by (auto simp: urlretrieve_def andthen_def emit_def on_disk_def
             split: transfer.splits sum.splits)
qed

lemma extractall_keeps:
  assumes "\<And>rel m d. P d \<Longrightarrow> P (fst (extract_member dest rel m d))"
  shows "P d \<Longrightarrow> P (fst (extractall dest ms d))"
proof (induction ms arbitrary: d)
  case Nil then show ?case by simp
next
  case (Cons a ms)
  obtain rel m where a: "a = (rel, m)" by (cases a)
  obtain d1 r where e: "extract_member dest rel m d = (d1, r)"
    by (cases "extract_member dest rel m d")
  from assms[OF Cons.prems, of rel m] e have p1: "P d1" by simp
  show ?case
  proof (cases r)
    case None
    with Cons.IH[OF p1] e a show ?thesis by simp
  next
    case (Some x)
    with p1 e a show ?thesis by simp
  qed
qed

lemma keeps_extract_archive:
  assumes "\<And>rel m d. P d \<Longrightarrow> P (fst (extract_member dest rel m d))"
  shows "keeps P (extract_archive decode evc bad archive dest)"
proof (rule keepsI)
  fix s :: state assume p: "P (disk s)"
  show "P (disk (fst (extract_archive decode evc bad archive dest s)))"
  proof (cases "lookup (disk s) archive")
    case None with p show ?thesis by (simp add: extract_archive_def)
  next
    case (Some n)
    show ?thesis
    proof (cases n)
      case (Dir es) with Some p show ?thesis by (simp add: extract_archive_def)
    next
      case (File c)
      show ?thesis
      proof (cases "decode c")
        case None with Some File p show ?thesis by (simp add: extract_archive_def)
      next
        case (Some ms)
        have "P (fst (extractall dest ms (disk s)))"
          by (rule extractall_keeps[where P = P]) (use assms p in blast)+
        then show ?thesis using \<open>lookup (disk s) archive = Some n\<close> File Some
          by (auto simp: extract_archive_def split: prod.splits)
      qed
    qed
  qed
qed

lemma keeps_check_call:
  assumes "\<forall>cmd d. P d \<longrightarrow> P (snd (toolchain ev cmd d))"
  shows "keeps P (check_call ev cmd)"
proof (rule keepsI)
  fix s :: state assume "P (disk s)"
  with assms have "P (snd (toolchain ev cmd (disk s)))" by blast
  then show "P (disk (fst (check_call ev cmd s)))"
    by (auto simp: check_call_def split: prod.splits)
qed

lemma keeps_move_items:
  assumes "\<And>i d d'. P d \<Longrightarrow> shutil_move (p @ [i]) (t @ [i]) d = Inr d' \<Longrightarrow> P d'"
  shows "keeps P (move_items p t items)"
proof (rule keepsI)
  fix s show "P (disk s) \<Longrightarrow> P (disk (fst (move_items p t items s)))"
  proof (induction items arbitrary: s)
    case Nil then show ?case by simp
  next
    case (Cons i items)
    show ?case
    proof (cases "shutil_move (p @ [i]) (t @ [i]) (disk s)")
      case (Inl e) with Cons.prems show ?thesis by (simp add: on_disk_def)
    next
      case (Inr d1)
      from assms[OF Cons.prems Inr] Cons.IH[of "s\<lparr>disk := d1\<rparr>"] Inr show ?thesis
        by (simp add: on_disk_def)
    qed
  qed
qed

lemma below_not_dir:
  assumes "prefix p q" and "lookup d q \<noteq> None" and "\<not> isdir d p"
  shows "q = p"
proof -
  from assms(1) obtain r where q: "q = p @ r" by (auto simp: prefix_def)
  show ?thesis
  proof (cases r)
    case Nil with q show ?thesis by simp
  next
    case (Cons x xs)
    with q assms(2) lookup_snoc_isdir[of d p x xs] assms(3) show ?thesis by simp
  qed
qed

lemma below_missing:
  assumes "prefix p q" and "lookup d p = None"
  shows "lookup d q = None"
proof -
  from assms(1) obtain r where "q = p @ r" by (auto simp: prefix_def)
  with assms(2) show ?thesis by (simp add: lookup_append)
qed

lemma write_file_keeps_isdir:
  assumes "write_file p c d = Inr d'" and "isdir d q"
  shows "isdir d' q"
proof (cases "prefix p q")
  case True
  from assms(2) have "lookup d q \<noteq> None" by (auto simp: isdir_def split: option.splits)
  from below_not_dir[OF True this write_file_Inr(3)[OF assms(1)]] assms(2)
       write_file_Inr(3)[OF assms(1)] show ?thesis by simp
next
  case False
  from put_same_kind[OF False, of "File c" d] write_file_Inr(1)[OF assms(1)] assms(2)
  show ?thesis by (simp add: same_kind_isdir)
qed

lemma unlink_Inr:
  assumes "unlink p d = Inr d'"
  shows "d' = remove p d" and "\<not> isdir d p" and "lookup d p \<noteq> None"
  using assms by (auto simp: unlink_def isdir_def split: option.splits node.splits)

lemma unlink_keeps_isdir:
  assumes "unlink p d = Inr d'" and "isdir d q"
  shows "isdir d' q"
proof (cases "prefix p q")
  case True
  from assms(2) have "lookup d q \<noteq> None" by (auto simp: isdir_def split: option.splits)
  from below_not_dir[OF True this unlink_Inr(2)[OF assms(1)]] assms(2)
       unlink_Inr(2)[OF assms(1)] show ?thesis by simp
next
  case False
  from remove_same_kind[OF False, of d] unlink_Inr(1)[OF assms(1)] assms(2)
  show ?thesis by (simp add: same_kind_isdir)
qed

lemma unlink_keeps_exists:
  assumes "unlink p d = Inr d'" and "path_exists d q" and "\<not> prefix p q"
  shows "path_exists d' q"
  using remove_same_kind[OF assms(3), of d] unlink_Inr(1)[OF assms(1)] assms(2)
  by (simp add: same_kind_exists)

lemma rmtree_keeps_exists:
  assumes "rmtree p d = Inr d'" and "path_exists d q" and "\<not> prefix p q"
  shows "path_exists d' q"
proof -
  from assms(1) have "d' = remove p d"
    by (auto simp: rmtree_def split: option.splits node.splits)
  with remove_same_kind[OF assms(3), of d] assms(2) show ?thesis
    by (simp add: same_kind_exists)
qed

lemma mkdir_cases:
  assumes "mkdir ok p d = Inr d'"
  shows "d' = d \<or> (lookup d p = None \<and> d' = put p (Dir []) d)"
  using assms by (auto simp: mkdir_def split: option.splits node.splits if_splits)

lemma mkdir_keeps_kind:
  assumes "mkdir ok p d = Inr d'" and "lookup d q \<noteq> None"
  shows "same_kind (lookup d' q) (lookup d q)"
proof -
  from mkdir_cases[OF assms(1)] show ?thesis
  proof
    assume "d' = d" then show ?thesis by simp
  next
    assume a: "lookup d p = None \<and> d' = put p (Dir []) d"
    then have "\<not> prefix p q" using below_missing[of p q d] assms(2) by blast
    from put_same_kind[OF this, of "Dir []" d] a show ?thesis by simp
  qed
qed

lemma mkdir_keeps_isdir:
  assumes "mkdir ok p d = Inr d'" and "isdir d q"
  shows "isdir d' q"
proof -
  from assms(2) have "lookup d q \<noteq> None" by (auto simp: isdir_def split: option.splits)
  from mkdir_keeps_kind[OF assms(1) this] assms(2) show ?thesis by (simp add: same_kind_isdir)
qed

lemma mkdir_keeps_exists:
  assumes "mkdir ok p d = Inr d'" and "path_exists d q"
  shows "path_exists d' q"
proof -
  from assms(2) have "lookup d q \<noteq> None" by (simp add: path_exists_def)
  from mkdir_keeps_kind[OF assms(1) this] assms(2) show ?thesis by (simp add: same_kind_exists)
qed

lemma makedirs_keeps_isdir:
  assumes "makedirs ok p d = Inr d'" and "isdir d q"
  shows "isdir d' q"
proof (cases "path_exists d p")
  case True
  with assms show ?thesis by (auto simp: makedirs_def split: if_splits)
next
  case False
  with assms(1) have m: "mkdirs p d = Some d'"
    by (auto simp: makedirs_def split: option.splits)
  from assms(2) have "lookup d q \<noteq> None" by (auto simp: isdir_def split: option.splits)
  from mkdirs_keeps_kind[OF m this] assms(2) show ?thesis by (simp add: same_kind_isdir)
qed

lemma extract_member_keeps_isdir:
  assumes "isdir d q"
  shows "isdir (fst (extract_member dest rel m d)) q"
proof (cases m)
  case MDir
  with assms show ?thesis
    by (auto simp: extract_member_def split: sum.splits intro: makedirs_keeps_isdir)
next
  case (MFile c)
  show ?thesis
  proof (cases "makedirs True (butlast (dest @ rel)) d")
    case (Inl e)
    with MFile assms show ?thesis by (simp add: extract_member_def)
  next
    case (Inr d1)
    from makedirs_keeps_isdir[OF Inr assms] have p1: "isdir d1 q" .
    show ?thesis
    proof (cases "write_file (dest @ rel) c d1")
      case (Inl e)
      with MFile Inr p1 show ?thesis by (simp add: extract_member_def)
    next
      case (Inr d2)
      from write_file_keeps_isdir[OF Inr p1] MFile
           \<open>makedirs True (butlast (dest @ rel)) d = Inr d1\<close> Inr
      show ?thesis by (simp add: extract_member_def)
    qed
  qed
qed

lemma shutil_move_frame_real:
  assumes "shutil_move s t d = Inr d'" and "s \<parallel> t" and "s \<parallel> q"
      and "(if isdir d t then t @ [last s] else t) \<parallel> q"
  shows "lookup d' q = lookup d q"
proof -
  from shutil_move_Inr[OF assms(1,2)] obtain n d0 r where
    m: "d' = put r n (remove s d0)" "d0 = d \<or> mkdirs (butlast r) d = Some d0"
       "if isdir d t then r = t @ [last s] else r = t" by metis
  from m(3) assms(4) have rq: "r \<parallel> q" by (auto split: if_splits)
  then have "\<not> prefix q (butlast r)" using not_prefix_butlast parallelD2 by blast
  with m(2) have "lookup d0 q = lookup d q" by (auto dest: mkdirs_lookup_other)
  with m(1) rq assms(3) show ?thesis by (simp add: put_lookup_par remove_lookup_par)
qed

lemma shutil_move_keeps_grandchild:
  assumes mv: "shutil_move (p @ [i]) (t @ [i]) d = Inr d'" and par: "p \<parallel> t"
      and ex: "path_exists d (t @ [a, b])" and ab: "a \<noteq> b"
  shows "path_exists d' (t @ [a, b])"
proof -
  from par have st: "p @ [i] \<parallel> t @ [i]" by (simp add: parallel_append)
  from par have sq: "p @ [i] \<parallel> t @ [a, b]" by (simp add: parallel_append)
  have rq: "(if isdir d (t @ [i]) then (t @ [i]) @ [last (p @ [i])] else t @ [i]) \<parallel> t @ [a, b]"
  proof (cases "i = a")
    case True
    from ex have "isdir d (t @ [a])"
      using lookup_snoc_isdir[of d "t @ [a]" b "[]"] by (simp add: path_exists_def)
    with True ab show ?thesis by (simp add: parallel_def)
  next
    case False
    then show ?thesis by (simp add: parallel_def)
  qed
  from shutil_move_frame_real[OF mv st sq rq] ex show ?thesis by (simp add: path_exists_def)
qed

section \<open>Facts about steps\<close>

lemma andthen_ok: "f s = (s', None) \<Longrightarrow> andthen f g s = g s'"
  by (simp add: andthen_def)

lemma andthen_err: "f s = (s', Some e) \<Longrightarrow> andthen f g s = (s', Some e)"
  by (simp add: andthen_def)

lemma trace_andthen:
  assumes "\<And>s. prefix (trace s) (trace (fst (f s)))"
      and "\<And>s. prefix (trace s) (trace (fst (g s)))"
  shows "prefix (trace s) (trace (fst (andthen f g s)))"
proof (cases "f s")
  case (Pair s' r)
  from assms(1)[of s] Pair have p1: "prefix (trace s) (trace s')" by simp
  show ?thesis
  proof (cases r)
    case None
    with Pair have "andthen f g s = g s'" by (simp add: andthen_def)
    with assms(2)[of s'] p1 show ?thesis by (auto intro: prefix_order.trans)
  next
    case (Some e)
    with Pair p1 show ?thesis by (simp add: andthen_def)
  qed
qed

lemma trace_on_disk: "trace (fst (on_disk f s)) = trace s"
  by (simp add: on_disk_def split: sum.splits)

lemma trace_extract_archive:
  "prefix (trace s) (trace (fst (extract_archive decode ev bad archive dest s)))"
  by (simp add: extract_archive_def split: option.splits node.splits prod.splits)

lemma trace_urlretrieve:
  "prefix (trace s @ [NetFetch url filename]) (trace (fst (urlretrieve ev url filename s)))"
  by (simp add: urlretrieve_def andthen_def emit_def on_disk_def
           split: transfer.splits sum.splits)

section \<open>Fetching\<close>

text \<open>
  C3, as stated, for the MOLE zip fetch: with \<open>mole.zip\<close> already in place,
  \<open>download_mole\<close> still performs its network transfer.
\<close>

theorem fetch_skip_counterexample:
  "path_exists (disk s_zip) [''t'', ''mole.zip''] \<and>
   network_ops (trace (fst (download_mole world0 [''t''] s_zip))) = 1"
  by code_simp

text \<open>
  C3, amended.  The Armadillo tarball fetch performs no network transfer and
  succeeds when its destination archive already exists, and is the plain
  \<open>urlretrieve\<close> otherwise.  The MOLE zip fetch has no such check: every call of
  \<open>download_mole\<close> starts with the network transfer to \<open>mole.zip\<close>, whether or
  not that file exists.
\<close>

theorem fetch_skip_armadillo_only:
  "(path_exists (disk s) (temp_dir @ [''armadillo-12.6.6.tar.xz'']) \<longrightarrow>
      dd_download ev temp_dir s = (s, None)) \<and>
   (\<not> path_exists (disk s) (temp_dir @ [''armadillo-12.6.6.tar.xz'']) \<longrightarrow>
      dd_download ev temp_dir s =
        urlretrieve ev ARMADILLO_SOURCE (temp_dir @ [''armadillo-12.6.6.tar.xz'']) s) \<and>
   prefix (trace s @ [NetFetch MOLE_REPO (target_dir @ [''mole.zip''])])
          (trace (fst (download_mole ev target_dir s)))"
proof (intro conjI impI)
  assume "path_exists (disk s) (temp_dir @ [''armadillo-12.6.6.tar.xz''])"
  then show "dd_download ev temp_dir s = (s, None)"
    by (simp add: dd_download_def skip_def)
next
  assume "\<not> path_exists (disk s) (temp_dir @ [''armadillo-12.6.6.tar.xz''])"
  then show "dd_download ev temp_dir s =
        urlretrieve ev ARMADILLO_SOURCE (temp_dir @ [''armadillo-12.6.6.tar.xz'']) s"
    by (simp add: dd_download_def)
next
  let ?zip = "target_dir @ [''mole.zip'']"
  obtain s1 r1 where u: "urlretrieve ev MOLE_REPO ?zip s = (s1, r1)"
    by (cases "urlretrieve ev MOLE_REPO ?zip s")
  from trace_urlretrieve[of s MOLE_REPO ?zip ev] u
  have p1: "prefix (trace s @ [NetFetch MOLE_REPO ?zip]) (trace s1)" by simp
  have rest: "prefix (trace s1)
     (trace (fst (andthen (zip_extractall ev ?zip target_dir) (on_disk (unlink ?zip)) s1)))"
    by (rule trace_andthen) (simp_all add: zip_extractall_def trace_extract_archive trace_on_disk)
  show "prefix (trace s @ [NetFetch MOLE_REPO ?zip]) (trace (fst (download_mole ev target_dir s)))"
  proof (cases r1)
    case None
    with u have "download_mole ev target_dir s =
        andthen (zip_extractall ev ?zip target_dir) (on_disk (unlink ?zip)) s1"
      by (simp add: download_mole_def andthen_def Let_def)
    with p1 rest show ?thesis by (auto intro: prefix_order.trans)
  next
    case (Some e)
    with u have "download_mole ev target_dir s = (s1, Some e)"
      by (simp add: download_mole_def andthen_def Let_def)
    with p1 show ?thesis by simp
  qed
qed

theorem fetch_skip_armadillo_only_witness:
  "path_exists (disk s_tar) ([''t''] @ [''armadillo-12.6.6.tar.xz'']) \<and>
   dd_download world0 [''t''] s_tar = (s_tar, None) \<and>
   \<not> path_exists (disk s_zip) ([''t''] @ [''armadillo-12.6.6.tar.xz'']) \<and>
   dd_download world0 [''t''] s_zip =
     urlretrieve world0 ARMADILLO_SOURCE ([''t''] @ [''armadillo-12.6.6.tar.xz'']) s_zip \<and>
   prefix (trace s_zip @ [NetFetch MOLE_REPO ([''t''] @ [''mole.zip''])])
          (trace (fst (download_mole world0 [''t''] s_zip)))"
proof -
  have a: "path_exists (disk s_tar) ([''t''] @ [''armadillo-12.6.6.tar.xz''])"
    by (simp add: s_tar_def path_exists_def)
  have b: "\<not> path_exists (disk s_zip) ([''t''] @ [''armadillo-12.6.6.tar.xz''])"
    by (simp add: s_zip_def path_exists_def)
  from a b fetch_skip_armadillo_only[of s_tar "[''t'']" world0 "[''t'']"]
       fetch_skip_armadillo_only[of s_zip "[''t'']" world0 "[''t'']"]
  show ?thesis by blast
qed

section \<open>Extracting\<close>





section \<open>Building\<close>

lemma makedirs_child:
  assumes "isdir d p" and "\<not> path_exists d (p @ [c])"
  shows "makedirs ok (p @ [c]) d = Inr (put (p @ [c]) (Dir []) d)"
proof -
  from assms(2) have "lookup d (p @ [c]) = None" by (simp add: path_exists_def)
  from mkdirs_child[OF assms(1) this] assms(2) show ?thesis by (simp add: makedirs_def)
qed

lemma exit_error_None: "(exit_error cmd r = None) = (r = Exited 0)"
  by (simp add: exit_error_def split: launch.splits)

lemma build_armadillo_run:
  assumes mk: "makedirs True (source_dir @ [''build'']) (disk s) = Inr d1"
      and c1: "toolchain ev (cmake_configure source_dir (source_dir @ [''build''])) d1 = (r1, d2)"
      and c2: "toolchain ev (cmake_build (source_dir @ [''build''])) d2 = (r2, d3)"
  shows "build_armadillo ev source_dir s =
           (if r1 = Exited 0
            then (s\<lparr>disk := d3,
                    trace := trace s @ [Run (cmake_configure source_dir (source_dir @ [''build''])),
                                        Run (cmake_build (source_dir @ [''build'']))]\<rparr>,
                  exit_error (cmake_build (source_dir @ [''build''])) r2)
            else (s\<lparr>disk := d2,
                    trace := trace s @ [Run (cmake_configure source_dir (source_dir @ [''build'']))]\<rparr>,
                  exit_error (cmake_configure source_dir (source_dir @ [''build''])) r1))"
proof (cases "r1 = Exited 0")
  case True
  with mk c1 c2 show ?thesis
    by (simp add: build_armadillo_def Let_def andthen_def on_disk_def check_call_def
          exit_error_def)
next
  case False
  then obtain e where e: "exit_error (cmake_configure source_dir (source_dir @ [''build''])) r1 = Some e"
    using exit_error_None[of "cmake_configure source_dir (source_dir @ [''build''])" r1] by auto
  with False mk c1 show ?thesis
    by (simp add: build_armadillo_def Let_def andthen_def on_disk_def check_call_def)
qed

text \<open>
  C5.  In the build step on the extracted Armadillo tree \<open>package_dir\<close>: when
  \<open>package_dir/build\<close> exists nothing is run and the step succeeds.  Otherwise
  the marker directory is created, cmake is run to configure with exactly the
  options \<open>-DARMADILLO_USE_SUPERLU=ON\<close>, \<open>-DARMADILLO_USE_OPENMP=ON\<close> and
  \<open>-DCMAKE_POLICY_VERSION_MINIMUM=3.5\<close>, and only after it has exited with status
  0 cmake is run to compile; the step succeeds exactly when both exit with
  status 0.
\<close>

theorem build_skip_or_configure_then_compile:
  "(path_exists (disk s) (target_dir @ [''armadillo-12.6.6''] @ [''build'']) \<longrightarrow>
      dd_build ev target_dir s = (s, None)) \<and>
   (isdir (disk s) (target_dir @ [''armadillo-12.6.6'']) \<and>
    \<not> path_exists (disk s) (target_dir @ [''armadillo-12.6.6''] @ [''build'']) \<and>
    ccmd = [''cmake'', ''-S'', fspath (target_dir @ [''armadillo-12.6.6'']),
            ''-B'', fspath (target_dir @ [''armadillo-12.6.6''] @ [''build'']),
            ''-DARMADILLO_USE_SUPERLU=ON'', ''-DARMADILLO_USE_OPENMP=ON'',
            ''-DCMAKE_POLICY_VERSION_MINIMUM=3.5''] \<and>
    bcmd = [''cmake'', ''--build'', fspath (target_dir @ [''armadillo-12.6.6''] @ [''build'']),
            ''--config'', ''Release''] \<and>
    toolchain ev ccmd
      (put (target_dir @ [''armadillo-12.6.6''] @ [''build'']) (Dir []) (disk s)) = (r1, d2) \<and>
    toolchain ev bcmd d2 = (r2, d3) \<longrightarrow>
      dd_build ev target_dir s =
        (if r1 = Exited 0
         then (s\<lparr>disk := d3, trace := trace s @ [Run ccmd, Run bcmd]\<rparr>, exit_error bcmd r2)
         else (s\<lparr>disk := d2, trace := trace s @ [Run ccmd]\<rparr>, exit_error ccmd r1)) \<and>
      (snd (dd_build ev target_dir s) = None) = (r1 = Exited 0 \<and> r2 = Exited 0))"
proof (intro conjI impI)
  assume "path_exists (disk s) (target_dir @ [''armadillo-12.6.6''] @ [''build''])"
  then show "dd_build ev target_dir s = (s, None)"
    by (simp add: dd_build_def skip_def)
next
  let ?pkg = "target_dir @ [''armadillo-12.6.6'']"
  let ?bld = "?pkg @ [''build'']"
  assume a: "isdir (disk s) ?pkg \<and> \<not> path_exists (disk s) (target_dir @ [''armadillo-12.6.6''] @ [''build'']) \<and>
    ccmd = [''cmake'', ''-S'', fspath ?pkg,
            ''-B'', fspath (target_dir @ [''armadillo-12.6.6''] @ [''build'']),
            ''-DARMADILLO_USE_SUPERLU=ON'', ''-DARMADILLO_USE_OPENMP=ON'',
            ''-DCMAKE_POLICY_VERSION_MINIMUM=3.5''] \<and>
    bcmd = [''cmake'', ''--build'', fspath (target_dir @ [''armadillo-12.6.6''] @ [''build'']),
            ''--config'', ''Release''] \<and>
    toolchain ev ccmd
      (put (target_dir @ [''armadillo-12.6.6''] @ [''build'']) (Dir []) (disk s)) = (r1, d2) \<and>
    toolchain ev bcmd d2 = (r2, d3)"
  then have ne: "\<not> path_exists (disk s) ?bld" and dir: "isdir (disk s) ?pkg" by simp_all
  from a have ccmd: "ccmd = cmake_configure ?pkg ?bld" and bcmd: "bcmd = cmake_build ?bld"
    by (simp_all add: cmake_configure_def cmake_build_def)
  from makedirs_child[OF dir ne]
  have mk: "makedirs True ?bld (disk s) = Inr (put ?bld (Dir []) (disk s))" .
  from a have c1: "toolchain ev (cmake_configure ?pkg ?bld) (put ?bld (Dir []) (disk s)) = (r1, d2)"
    by (auto simp: cmake_configure_def)
  from a have c2: "toolchain ev (cmake_build ?bld) d2 = (r2, d3)"
    by (auto simp: cmake_build_def)
  from ne have "dd_build ev target_dir s = build_armadillo ev ?pkg s"
    by (simp add: dd_build_def Let_def)
  with build_armadillo_run[OF mk c1 c2] ccmd bcmd
  have eq: "dd_build ev target_dir s =
        (if r1 = Exited 0
         then (s\<lparr>disk := d3, trace := trace s @ [Run ccmd, Run bcmd]\<rparr>, exit_error bcmd r2)
         else (s\<lparr>disk := d2, trace := trace s @ [Run ccmd]\<rparr>, exit_error ccmd r1))"
    by simp
  then show "dd_build ev target_dir s =
        (if r1 = Exited 0
         then (s\<lparr>disk := d3, trace := trace s @ [Run ccmd, Run bcmd]\<rparr>, exit_error bcmd r2)
         else (s\<lparr>disk := d2, trace := trace s @ [Run ccmd]\<rparr>, exit_error ccmd r1))" .
  from eq show "(snd (dd_build ev target_dir s) = None) = (r1 = Exited 0 \<and> r2 = Exited 0)"
    by (simp add: exit_error_None)
qed

theorem build_skip_or_configure_then_compile_witness:
  "path_exists (disk s_built) ([''d''] @ [''armadillo-12.6.6''] @ [''build'']) \<and>
   dd_build world0 [''d''] s_built = (s_built, None) \<and>
   isdir (disk s_pkg) ([''d''] @ [''armadillo-12.6.6'']) \<and>
   \<not> path_exists (disk s_pkg) ([''d''] @ [''armadillo-12.6.6''] @ [''build'']) \<and>
   snd (dd_build world0 [''d''] s_pkg) = None \<and>
   snd (dd_build world_fail [''d''] s_pkg) =
     Some (CalledProcessError 2 [''cmake'', ''--build'', ''/d/armadillo-12.6.6/build'',
                                 ''--config'', ''Release''])"
proof -
  let ?ccmd = "[''cmake'', ''-S'', fspath ([''d''] @ [''armadillo-12.6.6'']),
            ''-B'', fspath ([''d''] @ [''armadillo-12.6.6''] @ [''build'']),
            ''-DARMADILLO_USE_SUPERLU=ON'', ''-DARMADILLO_USE_OPENMP=ON'',
            ''-DCMAKE_POLICY_VERSION_MINIMUM=3.5'']"
  let ?bcmd = "[''cmake'', ''--build'', fspath ([''d''] @ [''armadillo-12.6.6''] @ [''build'']),
            ''--config'', ''Release'']"
  let ?d1 = "put ([''d''] @ [''armadillo-12.6.6''] @ [''build'']) (Dir []) (disk s_pkg)"
  have a: "path_exists (disk s_built) ([''d''] @ [''armadillo-12.6.6''] @ [''build''])"
    by code_simp
  have b: "isdir (disk s_pkg) ([''d''] @ [''armadillo-12.6.6''])" by code_simp
  have c: "\<not> path_exists (disk s_pkg) ([''d''] @ [''armadillo-12.6.6''] @ [''build''])"
    by code_simp
  have t0: "toolchain world0 ?ccmd ?d1 = (Exited 0, ?d1)" "toolchain world0 ?bcmd ?d1 = (Exited 0, ?d1)"
    by (simp_all add: world0_def)
  have tf: "toolchain world_fail ?ccmd ?d1 = (Exited 0, ?d1)"
           "toolchain world_fail ?bcmd ?d1 = (Exited 2, ?d1)"
    by (simp_all add: world_fail_def world0_def)
  have fp: "fspath [''d'', ''armadillo-12.6.6'', ''build''] = ''/d/armadillo-12.6.6/build''"
    by (simp add: fspath_def)
  from build_skip_or_configure_then_compile[of s_built "[''d'']" world0] a
  have 1: "dd_build world0 [''d''] s_built = (s_built, None)" by blast
  from build_skip_or_configure_then_compile[of s_pkg "[''d'']" world0 ?ccmd ?bcmd "Exited 0" ?d1
      "Exited 0" ?d1] b c t0
  have 2: "snd (dd_build world0 [''d''] s_pkg) = None" by blast
  from build_skip_or_configure_then_compile[of s_pkg "[''d'']" world_fail ?ccmd ?bcmd "Exited 0" ?d1
      "Exited 2" ?d1] b c tf
  have "dd_build world_fail [''d''] s_pkg =
      (s_pkg\<lparr>disk := ?d1, trace := trace s_pkg @ [Run ?ccmd, Run ?bcmd]\<rparr>,
       exit_error ?bcmd (Exited 2))" by simp
  then have 3: "snd (dd_build world_fail [''d''] s_pkg) =
     Some (CalledProcessError 2 [''cmake'', ''--build'', ''/d/armadillo-12.6.6/build'',
                                 ''--config'', ''Release''])"
    by (simp add: exit_error_def fp)
  from a 1 b c 2 3 show ?thesis by blast
qed

section \<open>Staging\<close>

lemma on_disk_ok: "on_disk f s = (s', None) \<Longrightarrow> f (disk s) = Inr (disk s') \<and> s' = s\<lparr>disk := disk s'\<rparr>"
  by (auto simp: on_disk_def split: sum.splits)

lemma on_disk_Inr: "f (disk s) = Inr d \<Longrightarrow> on_disk f s = (s\<lparr>disk := d\<rparr>, None)"
  by (simp add: on_disk_def)

lemma on_disk_Inl: "f (disk s) = Inl e \<Longrightarrow> on_disk f s = (s, Some e)"
  by (simp add: on_disk_def)

lemma move_items_Cons_ok:
  assumes "move_items p t (i # items) s = (s', None)"
  obtains d1 where "shutil_move (p @ [i]) (t @ [i]) (disk s) = Inr d1"
    and "move_items p t items (s\<lparr>disk := d1\<rparr>) = (s', None)"
  using assms by (auto simp: on_disk_def split: sum.splits)

lemma move_items_source:
  "p \<parallel> t \<Longrightarrow> lookup (disk s) p = Some (Dir es) \<Longrightarrow> move_items p t items s = (s', None) \<Longrightarrow>
   lookup (disk s') p = Some (Dir (filter (\<lambda>e. fst e \<notin> set items) es))"
proof (induction items arbitrary: s es)
  case Nil then show ?case by simp
next
  case (Cons i items)
  from move_items_Cons_ok[OF Cons.prems(3)] obtain d1 where
    m: "shutil_move (p @ [i]) (t @ [i]) (disk s) = Inr d1"
       "move_items p t items (s\<lparr>disk := d1\<rparr>) = (s', None)" by metis
  from Cons.prems(1) have "p \<parallel> t @ [i]" by (rule par_app2)
  from shutil_move_source[OF m(1) this Cons.prems(2)]
  have "lookup (disk (s\<lparr>disk := d1\<rparr>)) p = Some (Dir (AList.delete i es))" by simp
  from Cons.IH[OF Cons.prems(1) this m(2)]
  have "lookup (disk s') p =
      Some (Dir (filter (\<lambda>e. fst e \<notin> set items) (filter (\<lambda>e. i \<noteq> fst e) es)))"
    by (simp add: AList.delete_eq case_prod_unfold)
  moreover have "filter (\<lambda>e. fst e \<notin> set items) (filter (\<lambda>e. i \<noteq> fst e) es) =
      filter (\<lambda>e. fst e \<notin> set (i # items)) es"
    by (induction es) auto
  ultimately show ?case by simp
qed

lemma move_items_keeps_dest:
  "p \<parallel> t \<Longrightarrow> isdir (disk s) t \<Longrightarrow> isdir (disk (fst (move_items p t items s))) t"
proof (induction items arbitrary: s)
  case Nil then show ?case by simp
next
  case (Cons i items)
  show ?case
  proof (cases "shutil_move (p @ [i]) (t @ [i]) (disk s)")
    case (Inl e)
    with Cons.prems show ?thesis by (simp add: on_disk_def)
  next
    case (Inr d1)
    from Cons.prems(1) have par: "p @ [i] \<parallel> t @ [i]" by (simp add: parallel_append)
    from Cons.prems(1) have "\<not> prefix (p @ [i]) t" using par_app1 parallelD1 by blast
    from shutil_move_keeps_isdir[OF Inr par Cons.prems(2) this]
    have "isdir (disk (s\<lparr>disk := d1\<rparr>)) t" by simp
    from Cons.IH[OF Cons.prems(1) this] Inr show ?thesis by (simp add: on_disk_def)
  qed
qed






lemma mkdir_Inr:
  assumes "mkdir True p d = Inr d'" and "p \<noteq> []"
  shows "isdir d' p" and "q \<parallel> p \<Longrightarrow> lookup d' q = lookup d q"
    and "r \<noteq> [] \<Longrightarrow> lookup d' (p @ r) = lookup d (p @ r)"
    and "isdir d p \<Longrightarrow> d' = d"
proof -
  consider (old) "isdir d p" "d' = d"
    | (new) "lookup d p = None" "isdir d (butlast p)" "d' = put p (Dir []) d"
    using assms(1) by (auto simp: mkdir_def isdir_def split: option.splits node.splits)
  note cases = this
  show "isdir d' p"
  proof (cases rule: cases)
    case old then show ?thesis by simp
  next
    case new
    from put_lookup_at[OF assms(2) new(2), of "Dir []" "[]"] new(3) show ?thesis
      by (simp add: isdir_def)
  qed
  show "lookup d' q = lookup d q" if "q \<parallel> p"
  proof (cases rule: cases)
    case old then show ?thesis by simp
  next
    case new
    from that have "p \<parallel> q" by (simp add: parallel_commute)
    with new(3) show ?thesis by (simp add: put_lookup_par)
  qed
  show "lookup d' (p @ r) = lookup d (p @ r)" if "r \<noteq> []"
  proof (cases rule: cases)
    case old then show ?thesis by simp
  next
    case new
    from put_lookup_at[OF assms(2) new(2), of "Dir []" r] new(1,3) that show ?thesis
      by (simp add: lookup_append)
  qed
  show "d' = d" if "isdir d p"
    using that assms(1) by (auto simp: mkdir_def isdir_def split: option.splits node.splits)
qed

lemma isdir_lookup: "isdir d p \<Longrightarrow> \<exists>es. lookup d p = Some (Dir es)"
  by (auto simp: isdir_def split: option.splits node.splits)

lemma copy_mole_sources_ok:
  assumes "copy_mole_sources source_dir target_dir s = (s', None)"
  obtains d1 es where "mkdir True (target_dir @ [''cpp'']) (disk s) = Inr d1"
    and "lookup d1 (source_dir @ [MOLE_DIR, ''src'', ''cpp'']) = Some (Dir es)"
    and "move_items (source_dir @ [MOLE_DIR, ''src'', ''cpp'']) (target_dir @ [''cpp''])
           (map fst es) (s\<lparr>disk := d1\<rparr>) = (s', None)"
proof -
  let ?cpp = "target_dir @ [''cpp'']"
  let ?mole = "source_dir @ [MOLE_DIR, ''src'', ''cpp'']"
  from assms obtain d1 where mk: "mkdir True ?cpp (disk s) = Inr d1"
    by (cases "mkdir True ?cpp (disk s)")
       (auto simp: copy_mole_sources_def Let_def andthen_def on_disk_def)
  from mkdir_Inr(1)[OF mk] have "path_exists d1 ?cpp" by (simp add: isdir_exists)
  with assms mk have rest: "(case listdir ?mole d1 of
          Inl e \<Rightarrow> (s\<lparr>disk := d1\<rparr>, Some e)
        | Inr items \<Rightarrow> move_items ?mole ?cpp items (s\<lparr>disk := d1\<rparr>)) = (s', None)"
    by (simp add: copy_mole_sources_def Let_def andthen_def on_disk_def skip_def)
  then obtain es where "lookup d1 ?mole = Some (Dir es)"
     "move_items ?mole ?cpp (map fst es) (s\<lparr>disk := d1\<rparr>) = (s', None)"
    by (auto simp: listdir_def split: option.splits node.splits sum.splits)
  with mk that show ?thesis by blast
qed


lemma restaging:
  assumes run: "copy_mole_sources source_dir target_dir s = (s', None)"
      and par: "source_dir @ [MOLE_DIR, ''src'', ''cpp''] \<parallel> target_dir @ [''cpp'']"
  shows "lookup (disk s') (source_dir @ [MOLE_DIR, ''src'', ''cpp'']) = Some (Dir [])"
    and "copy_mole_sources source_dir target_dir s' = (s', None)"
proof -
  let ?cpp = "target_dir @ [''cpp'']"
  let ?mole = "source_dir @ [MOLE_DIR, ''src'', ''cpp'']"
  from copy_mole_sources_ok[OF run] obtain d1 es where
    mk: "mkdir True ?cpp (disk s) = Inr d1" and ls: "lookup d1 ?mole = Some (Dir es)"
    and mv: "move_items ?mole ?cpp (map fst es) (s\<lparr>disk := d1\<rparr>) = (s', None)" by metis
  have ne: "?cpp \<noteq> []" by simp
  from move_items_source[OF par _ mv, of es] ls
  have "lookup (disk s') ?mole = Some (Dir (filter (\<lambda>e. fst e \<notin> set (map fst es)) es))" by simp
  moreover have "filter (\<lambda>e. fst e \<notin> set (map fst es)) es = []" by (auto simp: filter_empty_conv)
  ultimately show src: "lookup (disk s') ?mole = Some (Dir [])" by simp
  from move_items_keeps_dest[OF par, of "s\<lparr>disk := d1\<rparr>" "map fst es"] mkdir_Inr(1)[OF mk ne] mv
  have dst: "isdir (disk s') ?cpp" by simp
  then have "mkdir True ?cpp (disk s') = Inr (disk s')"
    by (auto simp: mkdir_def isdir_def split: option.splits node.splits)
  with dst src show "copy_mole_sources source_dir target_dir s' = (s', None)"
    by (simp add: copy_mole_sources_def Let_def andthen_def on_disk_def skip_def listdir_def
          isdir_exists)
qed




text \<open>
  C8, as stated: a first invocation moves every entry away, and the second
  invocation right after it does not fail.
\<close>

theorem restaging_counterexample:
  "snd (copy_mole_sources [''t''] [''h''] s_stage) = None \<and>
   lookup (disk (fst (copy_mole_sources [''t''] [''h''] s_stage)))
     [''t'', MOLE_DIR, ''src'', ''cpp''] = Some (Dir []) \<and>
   snd (copy_mole_sources [''t''] [''h''] (fst (copy_mole_sources [''t''] [''h''] s_stage))) = None"
  by code_simp

text \<open>
  C8, amended.  \<open>copy_mole_sources\<close> moves the entries of the source subpath and
  leaves the subpath itself in place, empty.  A second invocation after a
  successful one (source subpath and destination directory not inside one
  another) therefore lists nothing, moves nothing and succeeds, leaving the
  file system as it is.  The invocation fails with the missing-source error,
  \<open>FileNotFoundError\<close> on the source subpath, when the subpath itself does not
  exist.
\<close>

theorem restaging_succeeds:
  "(copy_mole_sources source_dir target_dir s = (s', None) \<and>
    source_dir @ [MOLE_DIR, ''src'', ''cpp''] \<parallel> target_dir @ [''cpp''] \<longrightarrow>
      lookup (disk s') (source_dir @ [MOLE_DIR, ''src'', ''cpp'']) = Some (Dir []) \<and>
      copy_mole_sources source_dir target_dir s' = (s', None)) \<and>
   (isdir (disk s) (target_dir @ [''cpp'']) \<and>
    lookup (disk s) (source_dir @ [MOLE_DIR, ''src'', ''cpp'']) = None \<longrightarrow>
      copy_mole_sources source_dir target_dir s =
        (s, Some (FileNotFoundError (source_dir @ [MOLE_DIR, ''src'', ''cpp'']))))"
proof (intro conjI impI)
  assume a: "copy_mole_sources source_dir target_dir s = (s', None) \<and>
    source_dir @ [MOLE_DIR, ''src'', ''cpp''] \<parallel> target_dir @ [''cpp'']"
  then have run: "copy_mole_sources source_dir target_dir s = (s', None)"
    and par: "source_dir @ [MOLE_DIR, ''src'', ''cpp''] \<parallel> target_dir @ [''cpp'']" by simp_all
  from restaging(1)[OF run par]
  show "lookup (disk s') (source_dir @ [MOLE_DIR, ''src'', ''cpp'']) = Some (Dir [])" .
  from restaging(2)[OF run par]
  show "copy_mole_sources source_dir target_dir s' = (s', None)" .
next
  assume a: "isdir (disk s) (target_dir @ [''cpp'']) \<and>
    lookup (disk s) (source_dir @ [MOLE_DIR, ''src'', ''cpp'']) = None"
  then have "mkdir True (target_dir @ [''cpp'']) (disk s) = Inr (disk s)"
    by (auto simp: mkdir_def isdir_def split: option.splits node.splits)
  with a show "copy_mole_sources source_dir target_dir s =
        (s, Some (FileNotFoundError (source_dir @ [MOLE_DIR, ''src'', ''cpp''])))"
    by (simp add: copy_mole_sources_def Let_def andthen_def on_disk_def skip_def listdir_def
          isdir_exists)
qed

theorem restaging_succeeds_witness:
  "snd (copy_mole_sources [''t''] [''h''] s_stage) = None \<and>
   [''t''] @ [MOLE_DIR, ''src'', ''cpp''] \<parallel> [''h''] @ [''cpp''] \<and>
   copy_mole_sources [''t''] [''h''] (fst (copy_mole_sources [''t''] [''h''] s_stage)) =
     (fst (copy_mole_sources [''t''] [''h''] s_stage), None) \<and>
   isdir (disk s_nosrc) ([''h''] @ [''cpp'']) \<and>
   lookup (disk s_nosrc) ([''t''] @ [MOLE_DIR, ''src'', ''cpp'']) = None \<and>
   copy_mole_sources [''t''] [''h''] s_nosrc =
     (s_nosrc, Some (FileNotFoundError ([''t''] @ [MOLE_DIR, ''src'', ''cpp''])))"
proof -
  have ok: "snd (copy_mole_sources [''t''] [''h''] s_stage) = None" by code_simp
  then have run: "copy_mole_sources [''t''] [''h''] s_stage =
      (fst (copy_mole_sources [''t''] [''h''] s_stage), None)"
    by (cases "copy_mole_sources [''t''] [''h''] s_stage") simp
  have par: "[''t''] @ [MOLE_DIR, ''src'', ''cpp''] \<parallel> [''h''] @ [''cpp'']"
    by (simp add: parallel_def)
  have d: "isdir (disk s_nosrc) ([''h''] @ [''cpp''])" by code_simp
  have n: "lookup (disk s_nosrc) ([''t''] @ [MOLE_DIR, ''src'', ''cpp'']) = None" by code_simp
  from restaging_succeeds[of "[''t'']" "[''h'']" s_stage
      "fst (copy_mole_sources [''t''] [''h''] s_stage)"] run par
  have 1: "copy_mole_sources [''t''] [''h''] (fst (copy_mole_sources [''t''] [''h''] s_stage)) =
     (fst (copy_mole_sources [''t''] [''h''] s_stage), None)" by blast
  from restaging_succeeds[of "[''t'']" "[''h'']" s_nosrc] d n
  have 2: "copy_mole_sources [''t''] [''h''] s_nosrc =
     (s_nosrc, Some (FileNotFoundError ([''t''] @ [MOLE_DIR, ''src'', ''cpp''])))" by blast
  from ok par 1 d n 2 show ?thesis by blast
qed

section \<open>The pipeline\<close>

subsection \<open>The workspace directory through the pipeline\<close>

lemma keeps_isdir_dd_download: "keeps (\<lambda>d. isdir d q) (dd_download ev temp_dir)"
proof -
  have "keeps (\<lambda>d. isdir d q) (urlretrieve ev ARMADILLO_SOURCE (temp_dir @ [''armadillo-12.6.6.tar.xz'']))"
    by (rule keeps_urlretrieve) (rule write_file_keeps_isdir[rotated])
  then show ?thesis by (simp add: keeps_def dd_download_def skip_def Let_def)
qed

lemma keeps_isdir_dd_extract: "keeps (\<lambda>d. isdir d q) (dd_extract ev temp_dir target_dir)"
proof -
  have "keeps (\<lambda>d. isdir d q)
      (tar_extractall ev (temp_dir @ [''armadillo-12.6.6.tar.xz'']) target_dir)"
    unfolding tar_extractall_def
    by (rule keeps_extract_archive) (rule extract_member_keeps_isdir)
  then show ?thesis by (simp add: keeps_def dd_extract_def skip_def Let_def)
qed

lemma keeps_build_armadillo:
  assumes "\<forall>cmd d. P d \<longrightarrow> P (snd (toolchain ev cmd d))"
      and "\<And>p d d'. P d \<Longrightarrow> makedirs True p d = Inr d' \<Longrightarrow> P d'"
  shows "keeps P (build_armadillo ev source_dir)"
proof -
  have mk: "keeps P (on_disk (makedirs True (source_dir @ [''build''])))"
    by (rule keeps_on_disk) (rule assms(2))
  have cc: "keeps P (check_call ev cmd)" for cmd
    by (rule keeps_check_call) (rule assms(1))
  show ?thesis
    unfolding build_armadillo_def Let_def
    by (rule keeps_andthen[OF mk keeps_andthen[OF cc cc]])
qed

lemma keeps_isdir_dd_build:
  assumes "\<forall>cmd d. isdir d q \<longrightarrow> isdir (snd (toolchain ev cmd d)) q"
  shows "keeps (\<lambda>d. isdir d q) (dd_build ev target_dir)"
proof -
  have "keeps (\<lambda>d. isdir d q) (build_armadillo ev (target_dir @ [''armadillo-12.6.6'']))"
    by (rule keeps_build_armadillo[OF assms]) (rule makedirs_keeps_isdir[rotated])
  then show ?thesis by (simp add: keeps_def dd_build_def skip_def Let_def)
qed

lemma keeps_isdir_download_mole: "keeps (\<lambda>d. isdir d q) (download_mole ev target_dir)"
proof -
  have u: "keeps (\<lambda>d. isdir d q) (urlretrieve ev MOLE_REPO (target_dir @ [''mole.zip'']))"
    by (rule keeps_urlretrieve) (rule write_file_keeps_isdir[rotated])
  have z: "keeps (\<lambda>d. isdir d q)
      (extract_archive (unzip ev) ZipExtract BadZipFile (target_dir @ [''mole.zip'']) target_dir)"
    by (rule keeps_extract_archive) (rule extract_member_keeps_isdir)
  have x: "keeps (\<lambda>d. isdir d q) (on_disk (unlink (target_dir @ [''mole.zip''])))"
    by (rule keeps_on_disk) (rule unlink_keeps_isdir[rotated])
  show ?thesis
    unfolding download_mole_def Let_def zip_extractall_def
    by (rule keeps_andthen[OF u keeps_andthen[OF z x]])
qed

lemma keeps_copy_mole_sources:
  assumes "\<And>ok p d d'. P d \<Longrightarrow> mkdir ok p d = Inr d' \<Longrightarrow> P d'"
      and "\<And>ok p d d'. P d \<Longrightarrow> makedirs ok p d = Inr d' \<Longrightarrow> P d'"
      and "\<And>i d d'. P d \<Longrightarrow>
             shutil_move (source_dir @ [MOLE_DIR, ''src'', ''cpp''] @ [i])
                         (target_dir @ [''cpp''] @ [i]) d = Inr d' \<Longrightarrow> P d'"
  shows "keeps P (copy_mole_sources source_dir target_dir)"
proof -
  let ?mole = "source_dir @ [MOLE_DIR, ''src'', ''cpp'']"
  let ?cpp = "target_dir @ [''cpp'']"
  have mv: "keeps P (move_items ?mole ?cpp items)" for items
    by (rule keeps_move_items) (use assms(3) in simp)
  have ls: "keeps P (\<lambda>s. case listdir ?mole (disk s) of
                      Inl e \<Rightarrow> (s, Some e)
                    | Inr items \<Rightarrow> move_items ?mole ?cpp items s)"
    using mv by (auto simp: keeps_def split: sum.splits)
  have mk: "keeps P (\<lambda>s. if \<not> path_exists (disk s) ?cpp
                    then on_disk (makedirs False ?cpp) s else skip s)"
    using keeps_on_disk[of P "makedirs False ?cpp"] assms(2)
    by (auto simp: keeps_def skip_def)
  have md: "keeps P (on_disk (mkdir True ?cpp))"
    by (rule keeps_on_disk) (rule assms(1))
  show ?thesis
    unfolding copy_mole_sources_def Let_def
    by (rule keeps_andthen[OF md keeps_andthen[OF mk ls]])
qed

lemma base_paths:
  "base @ [''temp_build''] @ [MOLE_DIR, ''src'', ''cpp''] \<parallel> base @ [''src'', ''pymole'', ''cpp''] @ [''cpp'']"
  "\<not> prefix (base @ [''temp_build''] @ [MOLE_DIR, ''src'', ''cpp''] @ [i]) (base @ [''temp_build''])"
  "\<not> prefix (base @ [''src'', ''pymole'', ''cpp''] @ [''cpp''] @ [i]) (base @ [''temp_build''])"
  "\<not> prefix (base @ [''temp_build''] @ [''mole.zip''])
      (base @ [''src'', ''pymole'', ''cpp''] @ [''cpp''] @ [''armadillo-12.6.6'', ''build''])"
  "\<not> prefix (base @ [''temp_build''])
      (base @ [''src'', ''pymole'', ''cpp''] @ [''cpp''] @ [''armadillo-12.6.6'', ''build''])"
  by (simp_all add: parallel_def)

lemma keeps_isdir_copy:
  "keeps (\<lambda>d. isdir d (base @ [''temp_build'']))
     (copy_mole_sources (base @ [''temp_build'']) (base @ [''src'', ''pymole'', ''cpp'']))"
proof (rule keeps_copy_mole_sources)
  fix ok p d d' assume "isdir d (base @ [''temp_build''])" "mkdir ok p d = Inr d'"
  then show "isdir d' (base @ [''temp_build''])" by (rule mkdir_keeps_isdir[rotated])
next
  fix ok p d d' assume "isdir d (base @ [''temp_build''])" "makedirs ok p d = Inr d'"
  then show "isdir d' (base @ [''temp_build''])" by (rule makedirs_keeps_isdir[rotated])
next
  fix i d d'
  let ?s = "(base @ [''temp_build'']) @ [MOLE_DIR, ''src'', ''cpp''] @ [i]"
  let ?t = "(base @ [''src'', ''pymole'', ''cpp'']) @ [''cpp''] @ [i]"
  assume a: "isdir d (base @ [''temp_build''])" "shutil_move ?s ?t d = Inr d'"
  have par: "?s \<parallel> ?t" by (simp add: parallel_def)
  have "\<not> prefix ?s (base @ [''temp_build''])" "\<not> prefix ?t (base @ [''temp_build''])"
    by simp_all
  from shutil_move_keeps_isdir[OF a(2) par a(1) this]
  show "isdir d' (base @ [''temp_build''])" .
qed

lemma keeps_isdir_try_body:
  assumes "\<forall>cmd d. isdir d (base @ [''temp_build'']) \<longrightarrow>
             isdir (snd (toolchain ev cmd d)) (base @ [''temp_build''])"
  shows "keeps (\<lambda>d. isdir d (base @ [''temp_build'']))
           (try_body ev (base @ [''temp_build'']) (base @ [''src'', ''pymole'', ''cpp'']))"
  unfolding try_body_def download_dependencies_def
  by (rule keeps_andthen[OF keeps_andthen[OF keeps_isdir_dd_download
        keeps_andthen[OF keeps_isdir_dd_extract keeps_isdir_dd_build[OF assms]]]
        keeps_andthen[OF keeps_isdir_download_mole keeps_isdir_copy]])

subsection \<open>The build marker through the pipeline\<close>

lemma keeps_exists_dd_download: "keeps (\<lambda>d. path_exists d q) (dd_download ev temp_dir)"
proof -
  have "keeps (\<lambda>d. path_exists d q) (urlretrieve ev ARMADILLO_SOURCE (temp_dir @ [''armadillo-12.6.6.tar.xz'']))"
    by (rule keeps_urlretrieve) (rule write_file_mono[rotated])
  then show ?thesis by (simp add: keeps_def dd_download_def skip_def Let_def)
qed

lemma keeps_exists_dd_extract: "keeps (\<lambda>d. path_exists d q) (dd_extract ev temp_dir target_dir)"
proof -
  have "keeps (\<lambda>d. path_exists d q)
      (tar_extractall ev (temp_dir @ [''armadillo-12.6.6.tar.xz'']) target_dir)"
    unfolding tar_extractall_def
    by (rule keeps_extract_archive) (rule extract_member_mono)
  then show ?thesis by (simp add: keeps_def dd_extract_def skip_def Let_def)
qed

lemma keeps_marker_dd_build:
  "keeps (\<lambda>d. path_exists d (target_dir @ [''armadillo-12.6.6''] @ [''build'']))
     (dd_build ev target_dir)"
  by (simp add: keeps_def dd_build_def skip_def Let_def)

lemma keeps_exists_download_mole:
  assumes "\<not> prefix (target_dir @ [''mole.zip'']) q"
  shows "keeps (\<lambda>d. path_exists d q) (download_mole ev target_dir)"
proof -
  have u: "keeps (\<lambda>d. path_exists d q) (urlretrieve ev MOLE_REPO (target_dir @ [''mole.zip'']))"
    by (rule keeps_urlretrieve) (rule write_file_mono[rotated])
  have z: "keeps (\<lambda>d. path_exists d q)
      (extract_archive (unzip ev) ZipExtract BadZipFile (target_dir @ [''mole.zip'']) target_dir)"
    by (rule keeps_extract_archive) (rule extract_member_mono)
  have x: "keeps (\<lambda>d. path_exists d q) (on_disk (unlink (target_dir @ [''mole.zip''])))"
  proof (rule keeps_on_disk)
    fix d d' assume "path_exists d q" "unlink (target_dir @ [''mole.zip'']) d = Inr d'"
    with assms show "path_exists d' q" by (auto intro: unlink_keeps_exists)
  qed
  show ?thesis
    unfolding download_mole_def Let_def zip_extractall_def
    by (rule keeps_andthen[OF u keeps_andthen[OF z x]])
qed

lemma makedirs_mono': "path_exists d q \<Longrightarrow> makedirs ok p d = Inr d' \<Longrightarrow> path_exists d' q"
  by (rule makedirs_mono)

lemma keeps_marker_copy:
  "keeps (\<lambda>d. path_exists d (base @ [''src'', ''pymole'', ''cpp''] @ [''cpp''] @ [''armadillo-12.6.6'', ''build'']))
     (copy_mole_sources (base @ [''temp_build'']) (base @ [''src'', ''pymole'', ''cpp'']))"
proof (rule keeps_copy_mole_sources)
  let ?q = "base @ [''src'', ''pymole'', ''cpp''] @ [''cpp''] @ [''armadillo-12.6.6'', ''build'']"
  fix ok p d d' assume "path_exists d ?q" "mkdir ok p d = Inr d'"
  then show "path_exists d' ?q" by (rule mkdir_keeps_exists[rotated])
next
  let ?q = "base @ [''src'', ''pymole'', ''cpp''] @ [''cpp''] @ [''armadillo-12.6.6'', ''build'']"
  fix ok p d d' assume "path_exists d ?q" "makedirs ok p d = Inr d'"
  then show "path_exists d' ?q" by (rule makedirs_mono[rotated])
next
  fix i d d'
  let ?p = "(base @ [''temp_build'']) @ [MOLE_DIR, ''src'', ''cpp'']"
  let ?t = "(base @ [''src'', ''pymole'', ''cpp'']) @ [''cpp'']"
  assume a1: "path_exists d (base @ [''src'', ''pymole'', ''cpp''] @ [''cpp''] @ [''armadillo-12.6.6'', ''build''])"
     and a2: "shutil_move ((base @ [''temp_build'']) @ [MOLE_DIR, ''src'', ''cpp''] @ [i])
                ((base @ [''src'', ''pymole'', ''cpp'']) @ [''cpp''] @ [i]) d = Inr d'"
  from a2 have "shutil_move (?p @ [i]) (?t @ [i]) d = Inr d'" by simp
  note a = a1 this
  have par: "?p \<parallel> ?t" by (simp add: parallel_def)
  from a(1) have ex: "path_exists d (?t @ [''armadillo-12.6.6'', ''build''])" by simp
  have ab: "''armadillo-12.6.6'' \<noteq> ''build''" by simp
  from shutil_move_keeps_grandchild[OF a(2) par ex ab]
  show "path_exists d' (base @ [''src'', ''pymole'', ''cpp''] @ [''cpp''] @ [''armadillo-12.6.6'', ''build''])"
    by simp
qed

lemma keeps_marker_try_body:
  "keeps (\<lambda>d. path_exists d (base @ [''src'', ''pymole'', ''cpp''] @ [''cpp''] @ [''armadillo-12.6.6'', ''build'']))
     (try_body ev (base @ [''temp_build'']) (base @ [''src'', ''pymole'', ''cpp'']))"
proof -
  let ?q = "base @ [''src'', ''pymole'', ''cpp''] @ [''cpp''] @ [''armadillo-12.6.6'', ''build'']"
  have b: "keeps (\<lambda>d. path_exists d ?q) (dd_build ev ((base @ [''src'', ''pymole'', ''cpp'']) @ [''cpp'']))"
    using keeps_marker_dd_build[of "(base @ [''src'', ''pymole'', ''cpp'']) @ [''cpp'']" ev] by simp
  have m: "keeps (\<lambda>d. path_exists d ?q) (download_mole ev (base @ [''temp_build'']))"
    by (rule keeps_exists_download_mole) simp
  show ?thesis
    unfolding try_body_def download_dependencies_def
    by (rule keeps_andthen[OF keeps_andthen[OF keeps_exists_dd_download
          keeps_andthen[OF keeps_exists_dd_extract b]] keeps_andthen[OF m keeps_marker_copy]])
qed

lemma keeps_marker_cleanup:
  "keeps (\<lambda>d. path_exists d (base @ [''src'', ''pymole'', ''cpp''] @ [''cpp''] @ [''armadillo-12.6.6'', ''build'']))
     (cleanup (base @ [''temp_build'']))"
proof -
  have "keeps (\<lambda>d. path_exists d (base @ [''src'', ''pymole'', ''cpp''] @ [''cpp''] @ [''armadillo-12.6.6'', ''build'']))
      (on_disk (rmtree (base @ [''temp_build''])))"
    by (rule keeps_on_disk) (auto intro: rmtree_keeps_exists)
  then show ?thesis by (simp add: keeps_def cleanup_def skip_def)
qed

subsection \<open>The structure of prepare\_mole\<close>

lemma try_finally_fst: "fst (try_finally f h s) = fst (h (fst (f s)))"
  by (simp add: try_finally_def split: prod.splits option.splits)

lemma prepare_mole_mkdir_fail:
  "mkdir True (base_dir_of ev arg @ [''temp_build'']) (disk s) = Inl e \<Longrightarrow>
   prepare_mole ev arg s = (s, Some e)"
  by (simp add: prepare_mole_def Let_def andthen_def on_disk_def)

lemma prepare_mole_entered:
  "mkdir True (base_dir_of ev arg @ [''temp_build'']) (disk s) = Inr d1 \<Longrightarrow>
   prepare_mole ev arg s =
     try_finally (try_body ev (base_dir_of ev arg @ [''temp_build''])
                              (base_dir_of ev arg @ [''src'', ''pymole'', ''cpp'']))
                 (cleanup (base_dir_of ev arg @ [''temp_build''])) (s\<lparr>disk := d1\<rparr>)"
  by (simp add: prepare_mole_def Let_def andthen_def on_disk_def)

lemma cleanup_dir:
  "isdir (disk s) p \<Longrightarrow> cleanup p s = (s\<lparr>disk := remove p (disk s)\<rparr>, None)"
  by (auto simp: cleanup_def isdir_exists on_disk_def rmtree_def isdir_def
           split: option.splits node.splits)

lemma cleanup_not_dir: "p \<noteq> [] \<Longrightarrow> \<not> isdir (disk (fst (cleanup p s))) p"
proof (cases "isdir (disk s) p")
  case True
  assume "p \<noteq> []"
  from remove_lookup_at[OF this, of "disk s" "[]"] cleanup_dir[OF True] show ?thesis
    by (simp add: isdir_def)
next
  case False
  then show ?thesis
    by (auto simp: cleanup_def skip_def on_disk_def rmtree_def isdir_def
             split: option.splits node.splits)
qed

lemma mkdir_fail_not_dir: "mkdir True p d = Inl e \<Longrightarrow> \<not> isdir d p"
  by (auto simp: mkdir_def isdir_def split: option.splits node.splits)

section \<open>Cleanup\<close>

lemma prepare_mole_result:
  assumes H: "\<forall>cmd d. isdir d (base_dir_of ev arg @ [''temp_build'']) \<longrightarrow>
             isdir (snd (toolchain ev cmd d)) (base_dir_of ev arg @ [''temp_build''])"
      and mk: "mkdir True (base_dir_of ev arg @ [''temp_build'']) (disk s) = Inr d1"
      and body: "try_body ev (base_dir_of ev arg @ [''temp_build''])
                   (base_dir_of ev arg @ [''src'', ''pymole'', ''cpp'']) (s\<lparr>disk := d1\<rparr>) = (sf, r)"
  shows "prepare_mole ev arg s =
           (sf\<lparr>disk := remove (base_dir_of ev arg @ [''temp_build'']) (disk sf)\<rparr>, r)"
    and "lookup (remove (base_dir_of ev arg @ [''temp_build'']) (disk sf))
           (base_dir_of ev arg @ [''temp_build''] @ q) = None"
proof -
  let ?temp = "base_dir_of ev arg @ [''temp_build'']"
  have ne: "?temp \<noteq> []" by simp
  from mkdir_Inr(1)[OF mk ne] have "isdir (disk (s\<lparr>disk := d1\<rparr>)) ?temp" by simp
  from keepsD2[OF keeps_isdir_try_body[OF H] this body] have dir: "isdir (disk sf) ?temp" .
  from cleanup_dir[OF dir] body prepare_mole_entered[OF mk]
  show "prepare_mole ev arg s = (sf\<lparr>disk := remove ?temp (disk sf)\<rparr>, r)"
    by (simp add: try_finally_def)
  from remove_lookup_at[OF ne, of "disk sf" q]
  show "lookup (remove ?temp (disk sf)) (base_dir_of ev arg @ [''temp_build''] @ q) = None"
    by simp
qed

text \<open>
  C1.  When \<open>prepare_mole\<close> returns or re-raises, there is no directory at
  \<open>temp_build\<close> under the base directory: on normal completion, on an exception
  of any stage, and also when creating the workspace itself failed.  When the
  run entered the \<open>try\<close> block and cmake leaves the workspace directory in
  place, nothing at all exists at that path afterwards.
\<close>

theorem workspace_removed:
  "\<not> isdir (disk (fst (prepare_mole ev arg s))) (base_dir_of ev arg @ [''temp_build'']) \<and>
   ((\<forall>cmd d. isdir d (base_dir_of ev arg @ [''temp_build'']) \<longrightarrow>
              isdir (snd (toolchain ev cmd d)) (base_dir_of ev arg @ [''temp_build''])) \<and>
    mkdir True (base_dir_of ev arg @ [''temp_build'']) (disk s) = Inr d1 \<longrightarrow>
      \<not> path_exists (disk (fst (prepare_mole ev arg s))) (base_dir_of ev arg @ [''temp_build'']))"
proof (intro conjI impI)
  let ?temp = "base_dir_of ev arg @ [''temp_build'']"
  have ne: "?temp \<noteq> []" by simp
  show "\<not> isdir (disk (fst (prepare_mole ev arg s))) ?temp"
  proof (cases "mkdir True ?temp (disk s)")
    case (Inl e)
    from prepare_mole_mkdir_fail[OF Inl] mkdir_fail_not_dir[OF Inl] show ?thesis by simp
  next
    case (Inr d0)
    from prepare_mole_entered[OF Inr] cleanup_not_dir[OF ne] show ?thesis
      by (simp add: try_finally_fst)
  qed
next
  let ?temp = "base_dir_of ev arg @ [''temp_build'']"
  assume a: "(\<forall>cmd d. isdir d ?temp \<longrightarrow> isdir (snd (toolchain ev cmd d)) ?temp) \<and>
    mkdir True ?temp (disk s) = Inr d1"
  obtain sf r where body: "try_body ev ?temp (base_dir_of ev arg @ [''src'', ''pymole'', ''cpp''])
      (s\<lparr>disk := d1\<rparr>) = (sf, r)"
    by (cases "try_body ev ?temp (base_dir_of ev arg @ [''src'', ''pymole'', ''cpp'']) (s\<lparr>disk := d1\<rparr>)")
  from a have H: "\<forall>cmd d. isdir d ?temp \<longrightarrow> isdir (snd (toolchain ev cmd d)) ?temp"
    and mk: "mkdir True ?temp (disk s) = Inr d1" by simp_all
  from prepare_mole_result(1)[OF H mk body] prepare_mole_result(2)[OF H mk body, of "[]"]
  show "\<not> path_exists (disk (fst (prepare_mole ev arg s))) ?temp"
    by (simp add: path_exists_def)
qed

theorem workspace_removed_witness:
  "mkdir True (base_dir_of world_fail (Some [''p'']) @ [''temp_build'']) (disk s_fresh) =
     Inr (Dir [(''p'', Dir [(''temp_build'', Dir [])])]) \<and>
   snd (prepare_mole world_fail (Some [''p'']) s_fresh) =
     Some (CalledProcessError 2 [''cmake'', ''--build'',
            ''/p/src/pymole/cpp/cpp/armadillo-12.6.6/build'', ''--config'', ''Release'']) \<and>
   \<not> path_exists (disk (fst (prepare_mole world_fail (Some [''p'']) s_fresh)))
       (base_dir_of world_fail (Some [''p'']) @ [''temp_build''])"
proof -
  have H: "\<forall>cmd d. isdir d (base_dir_of world_fail (Some [''p'']) @ [''temp_build'']) \<longrightarrow>
      isdir (snd (toolchain world_fail cmd d)) (base_dir_of world_fail (Some [''p'']) @ [''temp_build''])"
    by (simp add: world_fail_def world0_def)
  have mk: "mkdir True (base_dir_of world_fail (Some [''p'']) @ [''temp_build'']) (disk s_fresh) =
     Inr (Dir [(''p'', Dir [(''temp_build'', Dir [])])])" by code_simp
  have e: "snd (prepare_mole world_fail (Some [''p'']) s_fresh) =
     Some (CalledProcessError 2 [''cmake'', ''--build'',
            ''/p/src/pymole/cpp/cpp/armadillo-12.6.6/build'', ''--config'', ''Release''])"
    by code_simp
  from workspace_removed[of world_fail "Some [''p'']" s_fresh
      "Dir [(''p'', Dir [(''temp_build'', Dir [])])]"] H mk
  have "\<not> path_exists (disk (fst (prepare_mole world_fail (Some [''p'']) s_fresh)))
       (base_dir_of world_fail (Some [''p'']) @ [''temp_build''])" by blast
  with mk e show ?thesis by blast
qed

section \<open>Failures\<close>






section \<open>Runs that find the build marker\<close>

subsection \<open>Steps that start no subprocess\<close>

lemma runfreeI: "(\<And>s. filter is_run (trace (fst (f s))) = filter is_run (trace s)) \<Longrightarrow> runfree f"
  by (simp add: runfree_def)

lemma silent_runfree: "silent f \<Longrightarrow> runfree f"
  by (simp add: silent_def runfree_def)

lemma silent_on_disk: "silent (on_disk f)"
  by (simp add: silent_def trace_on_disk)

lemma silent_skip: "silent skip"
  by (simp add: silent_def skip_def)

lemma silent_andthen: "silent f \<Longrightarrow> silent g \<Longrightarrow> silent (andthen f g)"
  by (auto simp: silent_def andthen_def split: prod.splits option.splits)
     (metis fst_conv)+

lemma runfree_andthen: "runfree f \<Longrightarrow> runfree g \<Longrightarrow> runfree (andthen f g)"
  by (auto simp: runfree_def andthen_def split: prod.splits option.splits)
     (metis fst_conv)+

lemma silent_move_items: "silent (move_items p t items)"
proof -
  have "trace (fst (move_items p t items s)) = trace s" for s
  proof (induction items arbitrary: s)
    case Nil show ?case by simp
  next
    case (Cons i items)
    show ?case
    proof (cases "shutil_move (p @ [i]) (t @ [i]) (disk s)")
      case (Inl e) then show ?thesis by (simp add: on_disk_def)
    next
      case (Inr d1)
      with Cons.IH[of "s\<lparr>disk := d1\<rparr>"] show ?thesis by (simp add: on_disk_def)
    qed
  qed
  then show ?thesis by (simp add: silent_def)
qed

lemma silent_copy_mole_sources: "silent (copy_mole_sources source_dir target_dir)"
proof -
  let ?mole = "source_dir @ [MOLE_DIR, ''src'', ''cpp'']"
  let ?cpp = "target_dir @ [''cpp'']"
  have ls: "silent (\<lambda>s. case listdir ?mole (disk s) of
                      Inl e \<Rightarrow> (s, Some e)
                    | Inr items \<Rightarrow> move_items ?mole ?cpp items s)"
    using silent_move_items[of ?mole ?cpp] by (auto simp: silent_def split: sum.splits)
  have mk: "silent (\<lambda>s. if \<not> path_exists (disk s) ?cpp
                    then on_disk (makedirs False ?cpp) s else skip s)"
    by (simp add: silent_def trace_on_disk skip_def)
  show ?thesis
    unfolding copy_mole_sources_def Let_def
    by (rule silent_andthen[OF silent_on_disk silent_andthen[OF mk ls]])
qed

lemma silent_cleanup: "silent (cleanup p)"
  by (simp add: silent_def cleanup_def trace_on_disk skip_def)

lemma dd_download_trace:
  "trace (fst (dd_download ev temp_dir s)) =
     trace s @ (if path_exists (disk s) (temp_dir @ [''armadillo-12.6.6.tar.xz'']) then []
                else [NetFetch ARMADILLO_SOURCE (temp_dir @ [''armadillo-12.6.6.tar.xz''])])"
  by (simp add: dd_download_def Let_def skip_def urlretrieve_def andthen_def emit_def on_disk_def
           split: transfer.splits sum.splits)

lemma runfree_urlretrieve: "runfree (urlretrieve ev url p)"
  by (rule runfreeI)
     (simp add: urlretrieve_def andthen_def emit_def on_disk_def
           split: transfer.splits sum.splits)

lemma runfree_extract_archive:
  assumes "\<And>a d. \<not> is_run (evc a d)"
  shows "runfree (extract_archive decode evc bad archive dest)"
  by (rule runfreeI)
     (simp add: extract_archive_def assms split: option.splits node.splits prod.splits)

lemma runfree_download_mole: "runfree (download_mole ev target_dir)"
proof -
  have z: "runfree (extract_archive (unzip ev) ZipExtract BadZipFile
      (target_dir @ [''mole.zip'']) target_dir)"
    by (rule runfree_extract_archive) simp
  show ?thesis
    unfolding download_mole_def Let_def zip_extractall_def
    by (rule runfree_andthen[OF runfree_urlretrieve
          runfree_andthen[OF z silent_runfree[OF silent_on_disk]]])
qed

lemma runfree_dd_download: "runfree (dd_download ev temp_dir)"
  by (rule runfreeI) (simp add: dd_download_trace)

lemma runfree_dd_extract: "runfree (dd_extract ev temp_dir target_dir)"
proof -
  have "runfree (extract_archive (untar ev) TarExtract ReadError
      (temp_dir @ [''armadillo-12.6.6.tar.xz'']) target_dir)"
    by (rule runfree_extract_archive) simp
  then show ?thesis
    by (simp add: runfree_def dd_extract_def Let_def skip_def tar_extractall_def)
qed

lemma quiet_onI: "keeps P f \<Longrightarrow> runfree f \<Longrightarrow> quiet_on P f"
  by (simp add: quiet_on_def keeps_def runfree_def)

lemma quiet_on_andthen: "quiet_on P f \<Longrightarrow> quiet_on P g \<Longrightarrow> quiet_on P (andthen f g)"
proof -
  assume f: "quiet_on P f" and g: "quiet_on P g"
  have "P (disk (fst (andthen f g s))) \<and>
        filter is_run (trace (fst (andthen f g s))) = filter is_run (trace s)"
    if p: "P (disk s)" for s
  proof (cases "f s")
    case (Pair s1 r)
    from f p Pair have 1: "P (disk s1)" "filter is_run (trace s1) = filter is_run (trace s)"
      by (auto simp: quiet_on_def)
    show ?thesis
    proof (cases r)
      case None
      with Pair have "andthen f g s = g s1" by (simp add: andthen_def)
      with g 1 show ?thesis by (auto simp: quiet_on_def)
    next
      case (Some e)
      with Pair 1 show ?thesis by (simp add: andthen_def)
    qed
  qed
  then show ?thesis by (simp add: quiet_on_def)
qed

lemma quiet_on_dd_build:
  "quiet_on (\<lambda>d. path_exists d (target_dir @ [''armadillo-12.6.6''] @ [''build'']))
     (dd_build ev target_dir)"
  by (simp add: quiet_on_def dd_build_def skip_def Let_def)

lemma quiet_on_try_body:
  "quiet_on (\<lambda>d. path_exists d (base @ [''src'', ''pymole'', ''cpp''] @ [''cpp''] @ [''armadillo-12.6.6'', ''build'']))
     (try_body ev (base @ [''temp_build'']) (base @ [''src'', ''pymole'', ''cpp'']))"
proof -
  let ?q = "base @ [''src'', ''pymole'', ''cpp''] @ [''cpp''] @ [''armadillo-12.6.6'', ''build'']"
  let ?P = "\<lambda>d. path_exists d ?q"
  have a: "quiet_on ?P (dd_download ev (base @ [''temp_build'']))"
    by (rule quiet_onI[OF keeps_exists_dd_download runfree_dd_download])
  have b: "quiet_on ?P (dd_extract ev (base @ [''temp_build'']) ((base @ [''src'', ''pymole'', ''cpp'']) @ [''cpp'']))"
    by (rule quiet_onI[OF keeps_exists_dd_extract runfree_dd_extract])
  have c: "quiet_on ?P (dd_build ev ((base @ [''src'', ''pymole'', ''cpp'']) @ [''cpp'']))"
    using quiet_on_dd_build[of "(base @ [''src'', ''pymole'', ''cpp'']) @ [''cpp'']" ev] by simp
  have "keeps ?P (download_mole ev (base @ [''temp_build'']))"
    by (rule keeps_exists_download_mole) simp
  then have d: "quiet_on ?P (download_mole ev (base @ [''temp_build'']))"
    by (rule quiet_onI[OF _ runfree_download_mole])
  have e: "quiet_on ?P (copy_mole_sources (base @ [''temp_build'']) (base @ [''src'', ''pymole'', ''cpp'']))"
    by (rule quiet_onI[OF keeps_marker_copy silent_runfree[OF silent_copy_mole_sources]])
  show ?thesis
    unfolding try_body_def download_dependencies_def
    by (rule quiet_on_andthen[OF quiet_on_andthen[OF a quiet_on_andthen[OF b c]]
          quiet_on_andthen[OF d e]])
qed

lemma quiet_on_cleanup:
  "quiet_on (\<lambda>d. path_exists d (base @ [''src'', ''pymole'', ''cpp''] @ [''cpp''] @ [''armadillo-12.6.6'', ''build'']))
     (cleanup (base @ [''temp_build'']))"
  by (rule quiet_onI[OF keeps_marker_cleanup silent_runfree[OF silent_cleanup]])

lemma prepare_mole_marked:
  assumes "path_exists (disk s)
     (base_dir_of ev arg @ [''src'', ''pymole'', ''cpp''] @ [''cpp''] @ [''armadillo-12.6.6'', ''build''])"
  shows "filter is_run (trace (fst (prepare_mole ev arg s))) = filter is_run (trace s)"
    and "path_exists (disk (fst (prepare_mole ev arg s)))
     (base_dir_of ev arg @ [''src'', ''pymole'', ''cpp''] @ [''cpp''] @ [''armadillo-12.6.6'', ''build''])"
proof -
  let ?b = "base_dir_of ev arg"
  let ?temp = "?b @ [''temp_build'']"
  let ?q = "?b @ [''src'', ''pymole'', ''cpp''] @ [''cpp''] @ [''armadillo-12.6.6'', ''build'']"
  have both: "filter is_run (trace (fst (prepare_mole ev arg s))) = filter is_run (trace s) \<and>
      path_exists (disk (fst (prepare_mole ev arg s))) ?q"
  proof (cases "mkdir True ?temp (disk s)")
    case (Inl e)
    from prepare_mole_mkdir_fail[OF Inl] assms show ?thesis by simp
  next
    case (Inr d1)
    let ?s1 = "s\<lparr>disk := d1\<rparr>"
    let ?s2 = "fst (try_body ev ?temp (?b @ [''src'', ''pymole'', ''cpp'']) ?s1)"
    from mkdir_keeps_exists[OF Inr assms] have p1: "path_exists (disk ?s1) ?q" by simp
    from quiet_on_try_body[of ?b ev] p1
    have p2: "path_exists (disk ?s2) ?q" "filter is_run (trace ?s2) = filter is_run (trace ?s1)"
      by (simp_all add: quiet_on_def)
    from quiet_on_cleanup[of ?b] p2(1)
    have p3: "path_exists (disk (fst (cleanup ?temp ?s2))) ?q"
       "filter is_run (trace (fst (cleanup ?temp ?s2))) = filter is_run (trace ?s2)"
      by (simp_all add: quiet_on_def)
    from prepare_mole_entered[OF Inr]
    have "fst (prepare_mole ev arg s) = fst (cleanup ?temp ?s2)" by (simp add: try_finally_fst)
    with p2 p3 show ?thesis by simp
  qed
  from both show "filter is_run (trace (fst (prepare_mole ev arg s))) = filter is_run (trace s)" ..
  from both show "path_exists (disk (fst (prepare_mole ev arg s))) ?q" ..
qed

lemma silentD: "silent f \<Longrightarrow> f s = (s', r) \<Longrightarrow> trace s' = trace s"
  by (metis silent_def fst_conv)

lemma path_exists_prefix:
  "path_exists d (p @ r) \<Longrightarrow> path_exists d p"
  by (auto simp: path_exists_def lookup_append split: option.splits)

lemma download_dependencies_marked:
  assumes "path_exists (disk s) (target_dir @ [''armadillo-12.6.6''] @ [''build''])"
  shows "download_dependencies ev temp_dir target_dir s = dd_download ev temp_dir s"
proof (cases "dd_download ev temp_dir s")
  case (Pair sa r)
  let ?q = "target_dir @ [''armadillo-12.6.6''] @ [''build'']"
  from keepsD2[OF keeps_exists_dd_download[of ?q ev temp_dir] assms Pair]
  have m: "path_exists (disk sa) ?q" .
  with path_exists_prefix[of "disk sa" "target_dir @ [''armadillo-12.6.6'']" "[''build'']"]
  have p: "path_exists (disk sa) (target_dir @ [''armadillo-12.6.6''])" by simp
  show ?thesis
  proof (cases r)
    case None
    with Pair m p show ?thesis
      by (simp add: download_dependencies_def andthen_def dd_extract_def dd_build_def skip_def Let_def)
  next
    case (Some e)
    with Pair show ?thesis by (simp add: download_dependencies_def andthen_def)
  qed
qed

lemma download_mole_ok_trace:
  assumes "download_mole ev target_dir s = (s', None)"
  shows "trace s' = trace s @ [NetFetch MOLE_REPO (target_dir @ [''mole.zip'']),
                               ZipExtract (target_dir @ [''mole.zip'']) target_dir]"
proof -
  let ?zip = "target_dir @ [''mole.zip'']"
  obtain s1 r1 where u: "urlretrieve ev MOLE_REPO ?zip s = (s1, r1)"
    by (cases "urlretrieve ev MOLE_REPO ?zip s")
  with assms have r1: "r1 = None"
    by (cases r1) (simp_all add: download_mole_def Let_def andthen_def)
  from u r1 have t1: "trace s1 = trace s @ [NetFetch MOLE_REPO ?zip]"
    by (auto simp: urlretrieve_def andthen_def emit_def on_disk_def
             split: transfer.splits sum.splits)
  obtain s2 r2 where z: "zip_extractall ev ?zip target_dir s1 = (s2, r2)"
    by (cases "zip_extractall ev ?zip target_dir s1")
  with assms u r1 have r2: "r2 = None"
    by (cases r2) (simp_all add: download_mole_def Let_def andthen_def)
  from z r2 have t2: "trace s2 = trace s1 @ [ZipExtract ?zip target_dir]"
    by (auto simp: zip_extractall_def extract_archive_def
             split: option.splits node.splits prod.splits)
  from assms u r1 z r2 have "on_disk (unlink ?zip) s2 = (s', None)"
    by (simp add: download_mole_def Let_def andthen_def)
  then have "trace s' = trace s2" using trace_on_disk[of "unlink ?zip" s2] by simp
  with t1 t2 show ?thesis by simp
qed

lemma try_finally_ok:
  assumes "try_finally f h s = (s', None)"
  obtains s2 where "f s = (s2, None)" and "h s2 = (s', None)"
  using assms by (auto simp: try_finally_def split: prod.splits option.splits)

lemma andthen_ok_cases:
  assumes "andthen f g s = (s', None)"
  obtains s1 where "f s = (s1, None)" and "g s1 = (s', None)"
  using assms by (auto simp: andthen_def split: prod.splits option.splits)

lemma prepare_mole_ok:
  assumes "prepare_mole ev arg s = (s', None)"
  obtains d1 sb sc s2 where
    "mkdir True (base_dir_of ev arg @ [''temp_build'']) (disk s) = Inr d1"
    "download_dependencies ev (base_dir_of ev arg @ [''temp_build''])
       ((base_dir_of ev arg @ [''src'', ''pymole'', ''cpp'']) @ [''cpp'']) (s\<lparr>disk := d1\<rparr>) = (sb, None)"
    "download_mole ev (base_dir_of ev arg @ [''temp_build'']) sb = (sc, None)"
    "copy_mole_sources (base_dir_of ev arg @ [''temp_build''])
       (base_dir_of ev arg @ [''src'', ''pymole'', ''cpp'']) sc = (s2, None)"
    "cleanup (base_dir_of ev arg @ [''temp_build'']) s2 = (s', None)"
proof -
  let ?temp = "base_dir_of ev arg @ [''temp_build'']"
  let ?target = "base_dir_of ev arg @ [''src'', ''pymole'', ''cpp'']"
  from assms obtain d1 where mk: "mkdir True ?temp (disk s) = Inr d1"
    by (cases "mkdir True ?temp (disk s)") (auto dest: prepare_mole_mkdir_fail)
  from prepare_mole_entered[OF mk] assms
  have "try_finally (try_body ev ?temp ?target) (cleanup ?temp) (s\<lparr>disk := d1\<rparr>) = (s', None)"
    by simp
  from try_finally_ok[OF this] obtain s2 where
    b: "try_body ev ?temp ?target (s\<lparr>disk := d1\<rparr>) = (s2, None)" and c: "cleanup ?temp s2 = (s', None)"
    by metis
  from b have "andthen (download_dependencies ev ?temp (?target @ [''cpp'']))
      (andthen (download_mole ev ?temp) (copy_mole_sources ?temp ?target)) (s\<lparr>disk := d1\<rparr>) = (s2, None)"
    by (simp add: try_body_def)
  from andthen_ok_cases[OF this] obtain sb where
    dd: "download_dependencies ev ?temp (?target @ [''cpp'']) (s\<lparr>disk := d1\<rparr>) = (sb, None)"
    and rest: "andthen (download_mole ev ?temp) (copy_mole_sources ?temp ?target) sb = (s2, None)"
    by metis
  from andthen_ok_cases[OF rest] obtain sc where
    dm: "download_mole ev ?temp sb = (sc, None)" and cp: "copy_mole_sources ?temp ?target sc = (s2, None)"
    by metis
  from that[OF mk dd dm cp c] show ?thesis .
qed

lemma marked_run_trace:
  assumes m: "path_exists (disk s)
     (base_dir_of ev arg @ [''src'', ''pymole'', ''cpp''] @ [''cpp''] @ [''armadillo-12.6.6'', ''build''])"
      and run: "prepare_mole ev arg s = (s', None)"
  shows "trace s' = trace s @
      (if path_exists (disk s) (base_dir_of ev arg @ [''temp_build''] @ [''armadillo-12.6.6.tar.xz''])
       then [] else [NetFetch ARMADILLO_SOURCE
                       (base_dir_of ev arg @ [''temp_build''] @ [''armadillo-12.6.6.tar.xz''])]) @
      [NetFetch MOLE_REPO (base_dir_of ev arg @ [''temp_build''] @ [''mole.zip'']),
       ZipExtract (base_dir_of ev arg @ [''temp_build''] @ [''mole.zip''])
                  (base_dir_of ev arg @ [''temp_build''])]"
proof -
  let ?temp = "base_dir_of ev arg @ [''temp_build'']"
  let ?target = "base_dir_of ev arg @ [''src'', ''pymole'', ''cpp'']"
  let ?q = "base_dir_of ev arg @ [''src'', ''pymole'', ''cpp''] @ [''cpp''] @ [''armadillo-12.6.6'', ''build'']"
  from prepare_mole_ok[OF run] obtain d1 sb sc s2 where
    mk: "mkdir True ?temp (disk s) = Inr d1"
    and dd: "download_dependencies ev ?temp (?target @ [''cpp'']) (s\<lparr>disk := d1\<rparr>) = (sb, None)"
    and dm: "download_mole ev ?temp sb = (sc, None)"
    and cp: "copy_mole_sources ?temp ?target sc = (s2, None)"
    and cl: "cleanup ?temp s2 = (s', None)" by metis
  have ne: "?temp \<noteq> []" by simp
  from mkdir_keeps_exists[OF mk m]
  have m1: "path_exists (disk (s\<lparr>disk := d1\<rparr>)) ((?target @ [''cpp'']) @ [''armadillo-12.6.6''] @ [''build''])"
    by simp
  from download_dependencies_marked[OF m1, of ev ?temp] dd
  have "dd_download ev ?temp (s\<lparr>disk := d1\<rparr>) = (sb, None)" by simp
  with dd_download_trace[of ev ?temp "s\<lparr>disk := d1\<rparr>"]
  have "trace sb = trace s @
      (if path_exists d1 (?temp @ [''armadillo-12.6.6.tar.xz'']) then []
       else [NetFetch ARMADILLO_SOURCE (?temp @ [''armadillo-12.6.6.tar.xz''])])" by simp
  moreover from mkdir_Inr(3)[OF mk ne, of "[''armadillo-12.6.6.tar.xz'']"]
  have "path_exists d1 (?temp @ [''armadillo-12.6.6.tar.xz'']) =
        path_exists (disk s) (?temp @ [''armadillo-12.6.6.tar.xz''])"
    by (simp add: path_exists_def)
  moreover from download_mole_ok_trace[OF dm]
  have "trace sc = trace sb @ [NetFetch MOLE_REPO (?temp @ [''mole.zip'']),
                               ZipExtract (?temp @ [''mole.zip'']) ?temp]" .
  moreover from silentD[OF silent_copy_mole_sources cp] have "trace s2 = trace sc" .
  moreover from silentD[OF silent_cleanup cl] have "trace s' = trace s2" .
  ultimately show ?thesis by simp
qed


text \<open>
  C2, as stated: a second run in \<open>world0\<close>, on the disk the first run left (the
  extracted Armadillo directory and its build directory in place), completes
  and has performed two network transfers.
\<close>

theorem second_run_counterexample:
  "path_exists (disk s_second) [''p'', ''src'', ''pymole'', ''cpp'', ''cpp'', ''armadillo-12.6.6''] \<and>
   path_exists (disk s_second)
     [''p'', ''src'', ''pymole'', ''cpp'', ''cpp'', ''armadillo-12.6.6'', ''build''] \<and>
   snd (prepare_mole world0 (Some [''p'']) s_second) = None \<and>
   network_ops (trace (fst (prepare_mole world0 (Some [''p'']) s_second))) = 2"
  by code_simp

text \<open>
  C2, amended.  A run that starts with the Armadillo build-output directory in
  place (and with it the extracted directory) starts no subprocess, whatever
  its outcome: zero build operations.  It still uses the network.  When it
  completes, what it did outside the file system was exactly: the fetch of the
  Armadillo tarball, unless the archive lay in the workspace at the start (it
  never does after an earlier run, which removed the workspace); the fetch of
  the MOLE zip; the extraction of that zip.  There is no tarball extraction.
\<close>

theorem second_run_skips_build_only:
  assumes "path_exists (disk s)
     (base_dir_of ev arg @ [''src'', ''pymole'', ''cpp''] @ [''cpp''] @ [''armadillo-12.6.6'', ''build''])"
  shows "build_ops (trace (fst (prepare_mole ev arg s))) = build_ops (trace s) \<and>
   (prepare_mole ev arg s = (s', None) \<longrightarrow>
      trace s' = trace s @
        (if path_exists (disk s) (base_dir_of ev arg @ [''temp_build''] @ [''armadillo-12.6.6.tar.xz''])
         then [] else [NetFetch ARMADILLO_SOURCE
                         (base_dir_of ev arg @ [''temp_build''] @ [''armadillo-12.6.6.tar.xz''])]) @
        [NetFetch MOLE_REPO (base_dir_of ev arg @ [''temp_build''] @ [''mole.zip'']),
         ZipExtract (base_dir_of ev arg @ [''temp_build''] @ [''mole.zip''])
                    (base_dir_of ev arg @ [''temp_build''])])"
  using prepare_mole_marked(1)[OF assms] marked_run_trace[OF assms]
  by (simp add: build_ops_def)

theorem second_run_skips_build_only_witness:
  "path_exists (disk s_second)
     (base_dir_of world0 (Some [''p'']) @ [''src'', ''pymole'', ''cpp''] @ [''cpp''] @
        [''armadillo-12.6.6'', ''build'']) \<and>
   build_ops (trace (fst (prepare_mole world0 (Some [''p'']) s_second))) = 0 \<and>
   snd (prepare_mole world0 (Some [''p'']) s_second) = None \<and>
   trace (fst (prepare_mole world0 (Some [''p'']) s_second)) =
     [NetFetch ARMADILLO_SOURCE [''p'', ''temp_build'', ''armadillo-12.6.6.tar.xz''],
      NetFetch MOLE_REPO [''p'', ''temp_build'', ''mole.zip''],
      ZipExtract [''p'', ''temp_build'', ''mole.zip''] [''p'', ''temp_build'']]"
proof -
  let ?r = "prepare_mole world0 (Some [''p'']) s_second"
  have m: "path_exists (disk s_second)
     (base_dir_of world0 (Some [''p'']) @ [''src'', ''pymole'', ''cpp''] @ [''cpp''] @
        [''armadillo-12.6.6'', ''build''])" by code_simp
  have ok: "snd ?r = None" by code_simp
  then have run: "?r = (fst ?r, None)" by (simp add: prod_eq_iff)
  have t0: "trace s_second = []" by (simp add: s_second_def)
  have na: "\<not> path_exists (disk s_second)
      (base_dir_of world0 (Some [''p'']) @ [''temp_build''] @ [''armadillo-12.6.6.tar.xz''])"
    by code_simp
  from second_run_skips_build_only[OF m, of "fst ?r"] run t0 na
  have "build_ops (trace (fst ?r)) = 0 \<and>
     trace (fst ?r) =
     [NetFetch ARMADILLO_SOURCE [''p'', ''temp_build'', ''armadillo-12.6.6.tar.xz''],
      NetFetch MOLE_REPO [''p'', ''temp_build'', ''mole.zip''],
      ZipExtract [''p'', ''temp_build'', ''mole.zip''] [''p'', ''temp_build'']]"
    by (simp add: base_dir_of_def build_ops_def)
  with m ok show ?thesis by blast
qed

section \<open>The build marker\<close>

lemma dd_build_marker:
  assumes H: "\<forall>cmd d. path_exists d (target_dir @ [''armadillo-12.6.6''] @ [''build'']) \<longrightarrow>
      path_exists (snd (toolchain ev cmd d)) (target_dir @ [''armadillo-12.6.6''] @ [''build''])"
      and pre: "path_exists (disk s) (target_dir @ [''armadillo-12.6.6''] @ [''build'']) \<or>
                makedirs True (target_dir @ [''armadillo-12.6.6''] @ [''build'']) (disk s) = Inr d1"
  shows "path_exists (disk (fst (dd_build ev target_dir s)))
           (target_dir @ [''armadillo-12.6.6''] @ [''build''])"
proof (cases "path_exists (disk s) (target_dir @ [''armadillo-12.6.6''] @ [''build''])")
  case True
  then show ?thesis by (simp add: dd_build_def skip_def Let_def)
next
  case False
  let ?pkg = "target_dir @ [''armadillo-12.6.6'']"
  let ?q = "target_dir @ [''armadillo-12.6.6''] @ [''build'']"
  let ?P = "\<lambda>d. path_exists d ?q"
  from False pre have mk: "makedirs True ?q (disk s) = Inr d1" by simp
  from makedirs_at[OF mk] have p1: "?P (disk (s\<lparr>disk := d1\<rparr>))" by (simp add: isdir_exists)
  have cc: "keeps ?P (check_call ev cmd)" for cmd
    by (rule keeps_check_call) (rule H)
  let ?rest = "andthen (check_call ev (cmake_configure ?pkg (?pkg @ [''build''])))
                       (check_call ev (cmake_build (?pkg @ [''build''])))"
  from keepsD[OF keeps_andthen[OF cc cc] p1]
  have "?P (disk (fst (?rest (s\<lparr>disk := d1\<rparr>))))" .
  moreover from False mk have "dd_build ev target_dir s = ?rest (s\<lparr>disk := d1\<rparr>)"
    by (simp add: dd_build_def build_armadillo_def Let_def andthen_def on_disk_def)
  ultimately show ?thesis by simp
qed

lemma dd_build_ok_pre:
  assumes "dd_build ev target_dir s = (s', None)"
  shows "path_exists (disk s) (target_dir @ [''armadillo-12.6.6''] @ [''build'']) \<or>
         (\<exists>d1. makedirs True (target_dir @ [''armadillo-12.6.6''] @ [''build'']) (disk s) = Inr d1)"
proof (cases "makedirs True (target_dir @ [''armadillo-12.6.6''] @ [''build'']) (disk s)")
  case (Inr d1) then show ?thesis by blast
next
  case (Inl e)
  with assms show ?thesis
    by (auto simp: dd_build_def build_armadillo_def Let_def andthen_def on_disk_def skip_def
             split: if_splits)
qed

lemma reruns_marked:
  assumes "\<forall>(ev, arg) \<in> set rs. base_dir_of ev arg = base"
      and "path_exists (disk s)
             (base @ [''src'', ''pymole'', ''cpp''] @ [''cpp''] @ [''armadillo-12.6.6'', ''build''])"
  shows "filter is_run (trace (reruns rs s)) = filter is_run (trace s) \<and>
         path_exists (disk (reruns rs s))
             (base @ [''src'', ''pymole'', ''cpp''] @ [''cpp''] @ [''armadillo-12.6.6'', ''build''])"
  using assms
proof (induction rs arbitrary: s)
  case Nil then show ?case by simp
next
  case (Cons a rs)
  obtain ev arg where a: "a = (ev, arg)" by (cases a)
  with Cons.prems(1) have b: "base_dir_of ev arg = base" by simp
  from Cons.prems(2) b have m: "path_exists (disk s)
     (base_dir_of ev arg @ [''src'', ''pymole'', ''cpp''] @ [''cpp''] @ [''armadillo-12.6.6'', ''build''])"
    by simp
  from prepare_mole_marked[OF m] b
  have 1: "filter is_run (trace (fst (prepare_mole ev arg s))) = filter is_run (trace s)"
    and 2: "path_exists (disk (fst (prepare_mole ev arg s)))
       (base @ [''src'', ''pymole'', ''cpp''] @ [''cpp''] @ [''armadillo-12.6.6'', ''build''])"
    by simp_all
  from Cons.prems(1) have "\<forall>(ev, arg) \<in> set rs. base_dir_of ev arg = base" by simp
  from Cons.IH[OF this 2] 1 a show ?case by simp
qed

text \<open>
  C10.  In the build step, with no marker yet: once \<open>makedirs\<close> has created
  \<open>package_dir/build\<close>, the marker is a directory on the very disk that cmake is
  first run on; the step is the configure run on that disk and, after exit
  status 0, the compile run, and it fails when either does; and as long as
  cmake does not delete the marker, it exists after the step, failed or not.
  With the marker in place the build step does nothing and succeeds, the
  cleanup keeps the marker, and every sequence of further invocations on the
  same base directory, in whatever environment and whatever each of them
  returns, starts no subprocess and leaves the marker in place.
\<close>

theorem failed_build_leaves_marker:
  "(\<not> path_exists (disk s) (D @ [''armadillo-12.6.6''] @ [''build'']) \<and>
    makedirs True (D @ [''armadillo-12.6.6''] @ [''build'']) (disk s) = Inr d1 \<longrightarrow>
      isdir d1 (D @ [''armadillo-12.6.6''] @ [''build'']) \<and>
      (toolchain ev (cmake_configure (D @ [''armadillo-12.6.6''])
                       (D @ [''armadillo-12.6.6''] @ [''build''])) d1 = (r1, d2) \<and>
       toolchain ev (cmake_build (D @ [''armadillo-12.6.6''] @ [''build''])) d2 = (r2, d3) \<longrightarrow>
         dd_build ev D s =
           (if r1 = Exited 0
            then (s\<lparr>disk := d3,
                    trace := trace s @
                      [Run (cmake_configure (D @ [''armadillo-12.6.6''])
                              (D @ [''armadillo-12.6.6''] @ [''build''])),
                       Run (cmake_build (D @ [''armadillo-12.6.6''] @ [''build'']))]\<rparr>,
                  exit_error (cmake_build (D @ [''armadillo-12.6.6''] @ [''build''])) r2)
            else (s\<lparr>disk := d2,
                    trace := trace s @
                      [Run (cmake_configure (D @ [''armadillo-12.6.6''])
                              (D @ [''armadillo-12.6.6''] @ [''build'']))]\<rparr>,
                  exit_error (cmake_configure (D @ [''armadillo-12.6.6''])
                                (D @ [''armadillo-12.6.6''] @ [''build''])) r1))) \<and>
      ((\<forall>cmd d. path_exists d (D @ [''armadillo-12.6.6''] @ [''build'']) \<longrightarrow>
           path_exists (snd (toolchain ev cmd d)) (D @ [''armadillo-12.6.6''] @ [''build''])) \<longrightarrow>
         path_exists (disk (fst (dd_build ev D s))) (D @ [''armadillo-12.6.6''] @ [''build'']))) \<and>
   (path_exists (disk s) (D @ [''armadillo-12.6.6''] @ [''build'']) \<longrightarrow>
      dd_build ev D s = (s, None)) \<and>
   (path_exists (disk s)
      (base @ [''src'', ''pymole'', ''cpp''] @ [''cpp''] @ [''armadillo-12.6.6'', ''build'']) \<longrightarrow>
      path_exists (disk (fst (cleanup (base @ [''temp_build'']) s)))
        (base @ [''src'', ''pymole'', ''cpp''] @ [''cpp''] @ [''armadillo-12.6.6'', ''build''])) \<and>
   ((\<forall>(ev, arg) \<in> set rs. base_dir_of ev arg = base) \<and>
    path_exists (disk s)
      (base @ [''src'', ''pymole'', ''cpp''] @ [''cpp''] @ [''armadillo-12.6.6'', ''build'']) \<longrightarrow>
      build_ops (trace (reruns rs s)) = build_ops (trace s) \<and>
      path_exists (disk (reruns rs s))
        (base @ [''src'', ''pymole'', ''cpp''] @ [''cpp''] @ [''armadillo-12.6.6'', ''build'']))"
proof -
  let ?pkg = "D @ [''armadillo-12.6.6'']"
  let ?q = "D @ [''armadillo-12.6.6''] @ [''build'']"
  let ?m = "base @ [''src'', ''pymole'', ''cpp''] @ [''cpp''] @ [''armadillo-12.6.6'', ''build'']"
  have A: "\<not> path_exists (disk s) ?q \<and> makedirs True ?q (disk s) = Inr d1 \<longrightarrow>
      isdir d1 ?q \<and>
      (toolchain ev (cmake_configure ?pkg ?q) d1 = (r1, d2) \<and>
       toolchain ev (cmake_build ?q) d2 = (r2, d3) \<longrightarrow>
         dd_build ev D s =
           (if r1 = Exited 0
            then (s\<lparr>disk := d3,
                    trace := trace s @ [Run (cmake_configure ?pkg ?q), Run (cmake_build ?q)]\<rparr>,
                  exit_error (cmake_build ?q) r2)
            else (s\<lparr>disk := d2, trace := trace s @ [Run (cmake_configure ?pkg ?q)]\<rparr>,
                  exit_error (cmake_configure ?pkg ?q) r1))) \<and>
      ((\<forall>cmd d. path_exists d ?q \<longrightarrow> path_exists (snd (toolchain ev cmd d)) ?q) \<longrightarrow>
         path_exists (disk (fst (dd_build ev D s))) ?q)"
  proof (intro impI conjI)
    assume a: "\<not> path_exists (disk s) ?q \<and> makedirs True ?q (disk s) = Inr d1"
    then show "isdir d1 ?q" by (auto intro: makedirs_at)
  next
    assume a: "\<not> path_exists (disk s) ?q \<and> makedirs True ?q (disk s) = Inr d1"
       and t: "toolchain ev (cmake_configure ?pkg ?q) d1 = (r1, d2) \<and>
               toolchain ev (cmake_build ?q) d2 = (r2, d3)"
    from a have "dd_build ev D s = build_armadillo ev ?pkg s"
      by (simp add: dd_build_def Let_def)
    moreover from a have "makedirs True (?pkg @ [''build'']) (disk s) = Inr d1" by simp
    moreover from t have "toolchain ev (cmake_configure ?pkg (?pkg @ [''build''])) d1 = (r1, d2)"
        "toolchain ev (cmake_build (?pkg @ [''build''])) d2 = (r2, d3)" by simp_all
    ultimately show "dd_build ev D s =
           (if r1 = Exited 0
            then (s\<lparr>disk := d3,
                    trace := trace s @ [Run (cmake_configure ?pkg ?q), Run (cmake_build ?q)]\<rparr>,
                  exit_error (cmake_build ?q) r2)
            else (s\<lparr>disk := d2, trace := trace s @ [Run (cmake_configure ?pkg ?q)]\<rparr>,
                  exit_error (cmake_configure ?pkg ?q) r1))"
      using build_armadillo_run[of ?pkg s d1 ev r1 d2 r2 d3] by simp
  next
    assume a: "\<not> path_exists (disk s) ?q \<and> makedirs True ?q (disk s) = Inr d1"
       and H: "\<forall>cmd d. path_exists d ?q \<longrightarrow> path_exists (snd (toolchain ev cmd d)) ?q"
    from a have "path_exists (disk s) ?q \<or> makedirs True ?q (disk s) = Inr d1" by simp
    from dd_build_marker[OF H this] show "path_exists (disk (fst (dd_build ev D s))) ?q" .
  qed
  have B: "path_exists (disk s) ?q \<longrightarrow> dd_build ev D s = (s, None)"
    by (simp add: dd_build_def skip_def Let_def)
  have C: "path_exists (disk s) ?m \<longrightarrow>
      path_exists (disk (fst (cleanup (base @ [''temp_build'']) s))) ?m"
    using keepsD[OF keeps_marker_cleanup[of base], of s] by blast
  have E: "(\<forall>(ev, arg) \<in> set rs. base_dir_of ev arg = base) \<and> path_exists (disk s) ?m \<longrightarrow>
      build_ops (trace (reruns rs s)) = build_ops (trace s) \<and> path_exists (disk (reruns rs s)) ?m"
    using reruns_marked[of rs base s] by (simp add: build_ops_def)
  from A B C E show ?thesis by blast
qed


theorem failed_build_leaves_marker_witness:
  "\<not> path_exists (disk s_pkg) ([''d''] @ [''armadillo-12.6.6''] @ [''build'']) \<and>
   makedirs True ([''d''] @ [''armadillo-12.6.6''] @ [''build'']) (disk s_pkg) =
     Inr (put [''d'', ''armadillo-12.6.6'', ''build''] (Dir []) (disk s_pkg)) \<and>
   isdir (put [''d'', ''armadillo-12.6.6'', ''build''] (Dir []) (disk s_pkg))
     ([''d''] @ [''armadillo-12.6.6''] @ [''build'']) \<and>
   snd (dd_build world_fail [''d''] s_pkg) =
     Some (CalledProcessError 2 (cmake_build ([''d''] @ [''armadillo-12.6.6''] @ [''build'']))) \<and>
   path_exists (disk (fst (dd_build world_fail [''d''] s_pkg)))
     ([''d''] @ [''armadillo-12.6.6''] @ [''build'']) \<and>
   path_exists (disk s_failed)
     ([''p''] @ [''src'', ''pymole'', ''cpp''] @ [''cpp''] @ [''armadillo-12.6.6'', ''build'']) \<and>
   build_ops (trace (reruns [(world0, Some [''p'']), (world_fail, Some [''p''])] s_failed)) =
     build_ops (trace s_failed) \<and>
   path_exists (disk (reruns [(world0, Some [''p'']), (world_fail, Some [''p''])] s_failed))
     ([''p''] @ [''src'', ''pymole'', ''cpp''] @ [''cpp''] @ [''armadillo-12.6.6'', ''build''])"
proof -
  let ?q = "[''d''] @ [''armadillo-12.6.6''] @ [''build'']"
  let ?pkg = "[''d''] @ [''armadillo-12.6.6'']"
  let ?d1 = "put [''d'', ''armadillo-12.6.6'', ''build''] (Dir []) (disk s_pkg)"
  let ?m = "[''p''] @ [''src'', ''pymole'', ''cpp''] @ [''cpp''] @ [''armadillo-12.6.6'', ''build'']"
  let ?rs = "[(world0, Some [''p'']), (world_fail, Some [''p''])]"
  have a: "\<not> path_exists (disk s_pkg) ?q" by code_simp
  have b: "makedirs True ?q (disk s_pkg) = Inr ?d1" by code_simp
  have c1: "toolchain world_fail (cmake_configure ?pkg ?q) ?d1 = (Exited 0, ?d1)"
    by (simp add: world_fail_def world0_def cmake_configure_def)
  have c2: "toolchain world_fail (cmake_build ?q) ?d1 = (Exited 2, ?d1)"
    by (simp add: world_fail_def world0_def cmake_build_def)
  have H: "\<forall>cmd d. path_exists d ?q \<longrightarrow> path_exists (snd (toolchain world_fail cmd d)) ?q"
    by (simp add: world_fail_def world0_def)
  note t1 = failed_build_leaves_marker[where s = s_pkg and D = "[''d'']" and ?d1.0 = ?d1
      and ev = world_fail and ?r1.0 = "Exited 0" and ?d2.0 = ?d1 and ?r2.0 = "Exited 2"
      and ?d3.0 = ?d1]
  from t1 a b have 1: "isdir ?d1 ?q" by blast
  from t1 a b c1 c2 have "dd_build world_fail [''d''] s_pkg =
      (s_pkg\<lparr>disk := ?d1,
              trace := trace s_pkg @ [Run (cmake_configure ?pkg ?q), Run (cmake_build ?q)]\<rparr>,
       exit_error (cmake_build ?q) (Exited 2))" by simp
  then have 2: "snd (dd_build world_fail [''d''] s_pkg) =
      Some (CalledProcessError 2 (cmake_build ?q))" by (simp add: exit_error_def)
  from t1 a b H have 3: "path_exists (disk (fst (dd_build world_fail [''d''] s_pkg))) ?q"
    by blast
  have m: "path_exists (disk s_failed) ?m" by code_simp
  have r: "\<forall>(ev, arg) \<in> set ?rs. base_dir_of ev arg = [''p'']" by (simp add: base_dir_of_def)
  note t2 = failed_build_leaves_marker[where s = s_failed and base = "[''p'']" and rs = ?rs]
  from t2 m r have 4: "build_ops (trace (reruns ?rs s_failed)) = build_ops (trace s_failed) \<and>
      path_exists (disk (reruns ?rs s_failed)) ?m" by blast
  from a b 1 2 3 m 4 show ?thesis by blast
qed

section \<open>What a run leaves behind\<close>

text \<open>
  C9, as stated: after a completed run from an empty project directory, the
  extracted Armadillo tree, with its header and its build-output directory, is
  still there.
\<close>

theorem persistence_counterexample:
  "snd (prepare_mole world0 (Some [''p'']) s_fresh) = None \<and>
   \<not> path_exists (disk s_fresh) [''p'', ''src''] \<and>
   lookup (disk (fst (prepare_mole world0 (Some [''p'']) s_fresh)))
     [''p'', ''src'', ''pymole'', ''cpp'', ''cpp'', ''armadillo-12.6.6''] =
     Some (Dir [(''a.h'', File ''A''), (''build'', Dir [])])"
  by code_simp

text \<open>
  C9, amended.  What lives only for one invocation is what lies in the scratch
  workspace: when the run entered the \<open>try\<close> block and cmake leaves the
  workspace in place, nothing exists at or under \<open>temp_build\<close> afterwards, so
  the downloaded archives and the extracted MOLE tree are gone.  The extracted
  Armadillo tree and its build output are not in the workspace:
  \<open>download_dependencies\<close> extracts and builds under \<open>target_dir/cpp\<close>, the
  staging destination itself, and after a completed run (cmake not deleting
  the build directory) the staging destination, the Armadillo tree in it and
  its build-output directory all exist.
\<close>

theorem only_workspace_is_transient:
  "((\<forall>cmd d. isdir d (base_dir_of ev arg @ [''temp_build'']) \<longrightarrow>
               isdir (snd (toolchain ev cmd d)) (base_dir_of ev arg @ [''temp_build''])) \<and>
    mkdir True (base_dir_of ev arg @ [''temp_build'']) (disk s) = Inr d1 \<longrightarrow>
      lookup (disk (fst (prepare_mole ev arg s))) (base_dir_of ev arg @ [''temp_build''] @ q) = None) \<and>
   ((\<forall>cmd d. path_exists d (base_dir_of ev arg @ [''src'', ''pymole'', ''cpp''] @ [''cpp''] @
                              [''armadillo-12.6.6'', ''build'']) \<longrightarrow>
               path_exists (snd (toolchain ev cmd d))
                 (base_dir_of ev arg @ [''src'', ''pymole'', ''cpp''] @ [''cpp''] @
                    [''armadillo-12.6.6'', ''build''])) \<and>
    prepare_mole ev arg s = (s', None) \<longrightarrow>
      path_exists (disk s') (base_dir_of ev arg @ [''src'', ''pymole'', ''cpp''] @ [''cpp''] @
                               [''armadillo-12.6.6'', ''build'']) \<and>
      isdir (disk s') (base_dir_of ev arg @ [''src'', ''pymole'', ''cpp''] @ [''cpp''] @
                         [''armadillo-12.6.6'']) \<and>
      isdir (disk s') (base_dir_of ev arg @ [''src'', ''pymole'', ''cpp''] @ [''cpp'']))"
proof (intro conjI impI)
  let ?temp = "base_dir_of ev arg @ [''temp_build'']"
  assume a: "(\<forall>cmd d. isdir d ?temp \<longrightarrow> isdir (snd (toolchain ev cmd d)) ?temp) \<and>
    mkdir True ?temp (disk s) = Inr d1"
  obtain sf r where body: "try_body ev ?temp (base_dir_of ev arg @ [''src'', ''pymole'', ''cpp''])
      (s\<lparr>disk := d1\<rparr>) = (sf, r)"
    by (cases "try_body ev ?temp (base_dir_of ev arg @ [''src'', ''pymole'', ''cpp'']) (s\<lparr>disk := d1\<rparr>)")
  from a have H: "\<forall>cmd d. isdir d ?temp \<longrightarrow> isdir (snd (toolchain ev cmd d)) ?temp"
    and mk: "mkdir True ?temp (disk s) = Inr d1" by simp_all
  from prepare_mole_result(1)[OF H mk body] prepare_mole_result(2)[OF H mk body, of q]
  show "lookup (disk (fst (prepare_mole ev arg s))) (base_dir_of ev arg @ [''temp_build''] @ q) = None"
    by simp
next
  let ?b = "base_dir_of ev arg"
  let ?temp = "?b @ [''temp_build'']"
  let ?target = "?b @ [''src'', ''pymole'', ''cpp'']"
  let ?m = "?b @ [''src'', ''pymole'', ''cpp''] @ [''cpp''] @ [''armadillo-12.6.6'', ''build'']"
  let ?P = "\<lambda>d. path_exists d ?m"
  assume a: "(\<forall>cmd d. path_exists d ?m \<longrightarrow> path_exists (snd (toolchain ev cmd d)) ?m) \<and>
    prepare_mole ev arg s = (s', None)"
  then have H: "\<forall>cmd d. path_exists d ?m \<longrightarrow> path_exists (snd (toolchain ev cmd d)) ?m"
    and run: "prepare_mole ev arg s = (s', None)" by simp_all
  from prepare_mole_ok[OF run] obtain d1 sb sc s2 where
    dd: "download_dependencies ev ?temp (?target @ [''cpp'']) (s\<lparr>disk := d1\<rparr>) = (sb, None)"
    and dm: "download_mole ev ?temp sb = (sc, None)"
    and cp: "copy_mole_sources ?temp ?target sc = (s2, None)"
    and cl: "cleanup ?temp s2 = (s', None)" by metis
  from dd have "andthen (dd_download ev ?temp)
      (andthen (dd_extract ev ?temp (?target @ [''cpp''])) (dd_build ev (?target @ [''cpp'']))) (s\<lparr>disk := d1\<rparr>) = (sb, None)"
    by (simp add: download_dependencies_def)
  from andthen_ok_cases[OF this] obtain sa where
    "andthen (dd_extract ev ?temp (?target @ [''cpp''])) (dd_build ev (?target @ [''cpp''])) sa = (sb, None)"
    by metis
  from andthen_ok_cases[OF this] obtain sx where b: "dd_build ev (?target @ [''cpp'']) sx = (sb, None)"
    by metis
  from dd_build_ok_pre[OF b] obtain dx where
    pre: "path_exists (disk sx) ((?target @ [''cpp'']) @ [''armadillo-12.6.6''] @ [''build'']) \<or>
          makedirs True ((?target @ [''cpp'']) @ [''armadillo-12.6.6''] @ [''build'']) (disk sx) = Inr dx"
    by blast
  from H have H': "\<forall>cmd d. path_exists d ((?target @ [''cpp'']) @ [''armadillo-12.6.6''] @ [''build'']) \<longrightarrow>
      path_exists (snd (toolchain ev cmd d)) ((?target @ [''cpp'']) @ [''armadillo-12.6.6''] @ [''build''])"
    by simp
  from dd_build_marker[OF H' pre] b have mb: "?P (disk sb)" by simp
  have "keeps ?P (download_mole ev ?temp)" by (rule keeps_exists_download_mole) simp
  from keepsD2[OF this mb dm] have mc: "?P (disk sc)" .
  from keepsD2[OF keeps_marker_copy[of ?b] mc cp] have m2: "?P (disk s2)" .
  from keepsD2[OF keeps_marker_cleanup[of ?b] m2 cl] show m': "path_exists (disk s') ?m" .
  from m' lookup_snoc_isdir[of "disk s'" "?target @ [''cpp''] @ [''armadillo-12.6.6'']" "''build''" "[]"]
  show "isdir (disk s') (?b @ [''src'', ''pymole'', ''cpp''] @ [''cpp''] @ [''armadillo-12.6.6''])"
    by (simp add: path_exists_def)
  from m' lookup_snoc_isdir[of "disk s'" "?target @ [''cpp'']" "''armadillo-12.6.6''" "[''build'']"]
  show "isdir (disk s') (?b @ [''src'', ''pymole'', ''cpp''] @ [''cpp''])"
    by (simp add: path_exists_def)
qed

theorem only_workspace_is_transient_witness:
  "mkdir True (base_dir_of world0 (Some [''p'']) @ [''temp_build'']) (disk s_fresh) =
     Inr (Dir [(''p'', Dir [(''temp_build'', Dir [])])]) \<and>
   snd (prepare_mole world0 (Some [''p'']) s_fresh) = None \<and>
   lookup (disk (fst (prepare_mole world0 (Some [''p'']) s_fresh)))
     (base_dir_of world0 (Some [''p'']) @ [''temp_build''] @ [''armadillo-12.6.6.tar.xz'']) = None \<and>
   lookup (disk (fst (prepare_mole world0 (Some [''p'']) s_fresh)))
     (base_dir_of world0 (Some [''p'']) @ [''temp_build''] @ [''mole-main'']) = None \<and>
   path_exists (disk (fst (prepare_mole world0 (Some [''p'']) s_fresh)))
     (base_dir_of world0 (Some [''p'']) @ [''src'', ''pymole'', ''cpp''] @ [''cpp''] @
        [''armadillo-12.6.6'', ''build'']) \<and>
   isdir (disk (fst (prepare_mole world0 (Some [''p'']) s_fresh)))
     (base_dir_of world0 (Some [''p'']) @ [''src'', ''pymole'', ''cpp''] @ [''cpp''])"
proof -
  let ?r = "prepare_mole world0 (Some [''p'']) s_fresh"
  let ?b = "base_dir_of world0 (Some [''p''])"
  let ?D1 = "Dir [(''p'', Dir [(''temp_build'', Dir [])])]"
  have Ht: "\<forall>cmd d. isdir d (?b @ [''temp_build'']) \<longrightarrow>
      isdir (snd (toolchain world0 cmd d)) (?b @ [''temp_build''])"
    by (simp add: world0_def)
  have Hm: "\<forall>cmd d. path_exists d (?b @ [''src'', ''pymole'', ''cpp''] @ [''cpp''] @
                              [''armadillo-12.6.6'', ''build'']) \<longrightarrow>
      path_exists (snd (toolchain world0 cmd d))
        (?b @ [''src'', ''pymole'', ''cpp''] @ [''cpp''] @ [''armadillo-12.6.6'', ''build''])"
    by (simp add: world0_def)
  have mk: "mkdir True (?b @ [''temp_build'']) (disk s_fresh) = Inr ?D1" by code_simp
  have ok: "snd ?r = None" by code_simp
  then have run: "?r = (fst ?r, None)" by (simp add: prod_eq_iff)
  from only_workspace_is_transient[where ev = world0 and arg = "Some [''p'']" and s = s_fresh
      and ?d1.0 = ?D1 and q = "[''armadillo-12.6.6.tar.xz'']"] Ht mk
  have 1: "lookup (disk (fst ?r)) (?b @ [''temp_build''] @ [''armadillo-12.6.6.tar.xz'']) = None"
    by blast
  from only_workspace_is_transient[where ev = world0 and arg = "Some [''p'']" and s = s_fresh
      and ?d1.0 = ?D1 and q = "[''mole-main'']"] Ht mk
  have 2: "lookup (disk (fst ?r)) (?b @ [''temp_build''] @ [''mole-main'']) = None"
    by blast
  from only_workspace_is_transient[where ev = world0 and arg = "Some [''p'']" and s = s_fresh
      and s' = "fst ?r"] Hm run
  have 3: "path_exists (disk (fst ?r)) (?b @ [''src'', ''pymole'', ''cpp''] @ [''cpp''] @
        [''armadillo-12.6.6'', ''build'']) \<and>
      isdir (disk (fst ?r)) (?b @ [''src'', ''pymole'', ''cpp''] @ [''cpp''])"
    by blast
  from mk ok 1 2 3 show ?thesis by blast
qed

end
